theory Spec2Isabelle
  imports Main "HOL-Library.Signed_Division" "HOL-Library.Multiset"
begin

section \<open>Board data (data/board_data.hpp, data/board_data.cpp)\<close>

text \<open>
  The board is a \<open>std::vector<std::vector<char>>\<close>, indexed \<open>boardArray[row][col]\<close>.
  \<open>operator[]\<close> outside the vector is undefined behaviour in the source; the model
  makes every access return \<open>None\<close> there, and every function that indexes the
  vector returns an option.  Machine \<open>int\<close> values are modelled as \<open>int\<close>: the
  counters of the source are bounded by the number of cells of a board, and no
  arithmetic of the modelled functions reaches the 32-bit limits for the board sizes
  of the game (10 to 26).
\<close>

type_synonym grid = "char list list"

definition get_cell :: "grid \<Rightarrow> int \<Rightarrow> int \<Rightarrow> char option" where
  "get_cell g r c =
     (if 0 \<le> r \<and> r < int (length g) \<and> 0 \<le> c \<and> c < int (length (g ! nat r))
      then Some (g ! nat r ! nat c) else None)"

definition set_cell :: "grid \<Rightarrow> int \<Rightarrow> int \<Rightarrow> char \<Rightarrow> grid option" where
  "set_cell g r c v =
     (if 0 \<le> r \<and> r < int (length g) \<and> 0 \<le> c \<and> c < int (length (g ! nat r))
      then Some (g[nat r := (g ! nat r)[nat c := v]]) else None)"

record ActiveShip =
  id_ship :: int
  symbol :: char
  length_ship :: int
  hitCount :: int
  isSunk :: bool
  startRow :: int
  startCol :: int
  orientation :: int

record BoardData =
  boardArray :: grid
  myShips :: "ActiveShip list"
  shipStatus :: "char \<rightharpoonup> ActiveShip"
  shipCellMap :: "(int \<times> int) \<rightharpoonup> char"
  boardSize :: int
  missCount :: int
  isHost :: bool

text \<open>\<open>std::vector::resize(size, std::vector<char>(size, 'w'))\<close> on an empty vector.\<close>

definition water_grid :: "int \<Rightarrow> grid" where
  "water_grid n = replicate (nat n) (replicate (nat n) (CHR ''w''))"

text \<open>The constructor \<open>BoardData(int size)\<close>; both maps and the ship list start empty.\<close>

definition BoardData_new :: "int \<Rightarrow> BoardData" where
  "BoardData_new n =
     \<lparr> boardArray = water_grid n, myShips = [], shipStatus = Map.empty,
       shipCellMap = Map.empty, boardSize = n, missCount = 0, isHost = True \<rparr>"

definition initialize :: "BoardData \<Rightarrow> int \<Rightarrow> BoardData" where
  "initialize b n =
     b\<lparr> boardSize := n, boardArray := water_grid n, myShips := [],
        shipStatus := Map.empty, shipCellMap := Map.empty, missCount := 0 \<rparr>"

text \<open>
  \<open>clear\<close> overwrites the cells \<open>[i][j]\<close> for \<open>i, j < boardSize\<close> one by one; the
  loops are the two recursions over the index lists.
\<close>

fun clear_row :: "grid \<Rightarrow> int \<Rightarrow> int list \<Rightarrow> grid option" where
  "clear_row g i [] = Some g"
| "clear_row g i (j # js) =
     (case set_cell g i j (CHR ''w'') of None \<Rightarrow> None | Some g' \<Rightarrow> clear_row g' i js)"

fun clear_rows :: "grid \<Rightarrow> int \<Rightarrow> int list \<Rightarrow> grid option" where
  "clear_rows g n [] = Some g"
| "clear_rows g n (i # is) =
     (case clear_row g i [0..n - 1] of None \<Rightarrow> None | Some g' \<Rightarrow> clear_rows g' n is)"

definition clear :: "BoardData \<Rightarrow> BoardData option" where
  "clear b =
     (case clear_rows (boardArray b) (boardSize b) [0..boardSize b - 1] of
        None \<Rightarrow> None
      | Some g \<Rightarrow> Some (b\<lparr> boardArray := g, myShips := [], shipStatus := Map.empty,
                          shipCellMap := Map.empty, missCount := 0 \<rparr>))"

subsection \<open>receiveShot\<close>

definition is_ship_char :: "char \<Rightarrow> bool" where
  \<comment> \<open>\<open>cell >= 'A' && cell <= 'Z'\<close>\<close>
  "is_ship_char c = ((65::nat) \<le> of_char c \<and> of_char c \<le> (90::nat))"

text \<open>The test that sets \<open>isHit\<close>: whether \<open>(x, y)\<close> lies on the stored geometry.\<close>

definition isHit :: "ActiveShip \<Rightarrow> int \<Rightarrow> int \<Rightarrow> bool" where
  "isHit ship x y =
     (if length_ship ship = 1 then x = startCol ship \<and> y = startRow ship
      else if orientation ship = 1
        then x = startCol ship \<and> y \<ge> startRow ship \<and> y < startRow ship + length_ship ship
      else y = startRow ship \<and> x \<le> startCol ship \<and> x > startCol ship - length_ship ship)"

text \<open>
  The \<open>for (auto& ship : myShips)\<close> loop with its two \<open>continue\<close>s: the index of
  the first ship that is not sunk, carries the symbol and lies under the shot.
\<close>

fun findShip :: "ActiveShip list \<Rightarrow> char \<Rightarrow> int \<Rightarrow> int \<Rightarrow> nat \<Rightarrow> nat option" where
  "findShip [] symb x y i = None"
| "findShip (ship # rest) symb x y i =
     (if isSunk ship then findShip rest symb x y (Suc i)
      else if symbol ship \<noteq> symb then findShip rest symb x y (Suc i)
      else if isHit ship x y then Some i
      else findShip rest symb x y (Suc i))"

text \<open>The cell of the ship at offset \<open>i\<close>, as (row, column).\<close>

definition ship_cell_rc :: "ActiveShip \<Rightarrow> int \<Rightarrow> int \<times> int" where
  "ship_cell_rc ship i =
     (if orientation ship = 1 then (startRow ship + i, startCol ship)
      else (startRow ship, startCol ship - i))"

text \<open>The loop that marks the cells of a sunk ship, skipping cells outside the board.\<close>

fun markSunk :: "int \<Rightarrow> ActiveShip \<Rightarrow> grid \<Rightarrow> int list \<Rightarrow> grid option" where
  "markSunk n ship g [] = Some g"
| "markSunk n ship g (i # is) =
     (let (r, c) = ship_cell_rc ship i in
      if r \<ge> 0 \<and> r < n \<and> c \<ge> 0 \<and> c < n
      then (case set_cell g r c (CHR ''s'') of None \<Rightarrow> None
            | Some g' \<Rightarrow> markSunk n ship g' is)
      else markSunk n ship g is)"

text \<open>\<open>std::map::operator[]\<close> inserts a value-initialised (all zero) entry for a new key.\<close>

definition zero_ship :: ActiveShip where
  "zero_ship = \<lparr> id_ship = 0, symbol = CHR 0x00, length_ship = 0, hitCount = 0,
                 isSunk = False, startRow = 0, startCol = 0, orientation = 0 \<rparr>"

definition status_at :: "(char \<rightharpoonup> ActiveShip) \<Rightarrow> char \<Rightarrow> ActiveShip" where
  "status_at m k = (case m k of None \<Rightarrow> zero_ship | Some s \<Rightarrow> s)"

text \<open>The body of the loop once \<open>isHit\<close> holds for the ship at index \<open>i\<close>.\<close>

definition hitShip :: "BoardData \<Rightarrow> int \<Rightarrow> int \<Rightarrow> nat \<Rightarrow> (int \<times> BoardData) option" where
  "hitShip b x y i =
     (let ship = (myShips b ! i)\<lparr> hitCount := hitCount (myShips b ! i) + 1 \<rparr> in
      if hitCount ship \<ge> length_ship ship then
        (let ship' = ship\<lparr> isSunk := True \<rparr>;
             st = (status_at (shipStatus b) (symbol ship'))
                    \<lparr> isSunk := True, hitCount := hitCount ship' \<rparr>
         in case markSunk (boardSize b) ship' (boardArray b) [0..length_ship ship' - 1] of
              None \<Rightarrow> None
            | Some g \<Rightarrow>
                Some (2, b\<lparr> boardArray := g, myShips := (myShips b)[i := ship'],
                            shipStatus := (shipStatus b)(symbol ship' \<mapsto> st) \<rparr>))
      else
        (case set_cell (boardArray b) y x (CHR ''x'') of
           None \<Rightarrow> None
         | Some g \<Rightarrow>
             Some (1, b\<lparr> boardArray := g, myShips := (myShips b)[i := ship],
                         shipStatus := (shipStatus b)(symbol ship \<mapsto>
                            (status_at (shipStatus b) (symbol ship))
                               \<lparr> hitCount := hitCount ship \<rparr>) \<rparr>)))"

text \<open>Returns 0 = miss, 1 = hit, 2 = ship sunk, and the board after the shot.\<close>

definition receiveShot :: "BoardData \<Rightarrow> int \<Rightarrow> int \<Rightarrow> (int \<times> BoardData) option" where
  "receiveShot b x y =
     (if x < 0 \<or> x \<ge> boardSize b \<or> y < 0 \<or> y \<ge> boardSize b then Some (0, b)
      else case get_cell (boardArray b) y x of
        None \<Rightarrow> None
      | Some cell \<Rightarrow>
          if cell = CHR ''x'' \<or> cell = CHR ''o'' \<or> cell = CHR ''s'' then Some (0, b)
          else if cell = CHR ''w'' then
            (case set_cell (boardArray b) y x (CHR ''o'') of
               None \<Rightarrow> None
             | Some g \<Rightarrow> Some (0, b\<lparr> boardArray := g, missCount := missCount b + 1 \<rparr>))
          else
            (case (if is_ship_char cell then findShip (myShips b) cell x y 0 else None) of
               Some i \<Rightarrow> hitShip b x y i
             | None \<Rightarrow>
                 (case set_cell (boardArray b) y x (CHR ''x'') of
                    None \<Rightarrow> None
                  | Some g \<Rightarrow> Some (1, b\<lparr> boardArray := g \<rparr>))))"

subsection \<open>addShip and getShipOccupiedCells\<close>

text \<open>The two placement loops of \<open>addShip\<close>; the writes are not bounds-checked.\<close>

fun writeCells :: "grid \<Rightarrow> (int \<times> int) list \<Rightarrow> char \<Rightarrow> grid option" where
  "writeCells g [] v = Some g"
| "writeCells g ((r, c) # rcs) v =
     (case set_cell g r c v of None \<Rightarrow> None | Some g' \<Rightarrow> writeCells g' rcs v)"

text \<open>
  \<open>startPos / boardSize\<close> and \<open>startPos % boardSize\<close> truncate towards zero
  (\<open>sdiv\<close>, \<open>smod\<close>); division by zero is undefined in the source.
\<close>

definition addShip :: "BoardData \<Rightarrow> int \<Rightarrow> int \<Rightarrow> int \<Rightarrow> char \<Rightarrow> BoardData option" where
  "addShip b orient startPos len symb =
     (if boardSize b = 0 then None
      else
        let row = startPos sdiv boardSize b;
            col = startPos smod boardSize b;
            newShip = \<lparr> id_ship = int (length (myShips b)), symbol = symb,
                        length_ship = len, hitCount = 0, isSunk = False,
                        startRow = row, startCol = col, orientation = orient \<rparr>;
            cells = (if orient = 1 then map (\<lambda>j. (row + j, col)) [0..len - 1]
                     else map (\<lambda>j. (row, col - j)) [0..len - 1])
        in case writeCells (boardArray b) cells symb of
             None \<Rightarrow> None
           | Some g \<Rightarrow>
               Some (b\<lparr> myShips := myShips b @ [newShip],
                        shipStatus := (shipStatus b)(symb \<mapsto> newShip),
                        boardArray := g \<rparr>))"

text \<open>
  \<open>getShipOccupiedCells(x, y)\<close>: the cells, as (x, y) pairs, of the first ship of
  the list whose geometry covers \<open>(x, y)\<close>; the empty list when there is none.
\<close>

definition belongsToShip :: "ActiveShip \<Rightarrow> int \<Rightarrow> int \<Rightarrow> bool" where
  "belongsToShip ship x y =
     (if orientation ship = 1
        then x = startCol ship \<and> y \<ge> startRow ship \<and> y < startRow ship + length_ship ship
      else y = startRow ship \<and> x \<le> startCol ship \<and> x > startCol ship - length_ship ship)"

definition ship_cells_xy :: "ActiveShip \<Rightarrow> (int \<times> int) list" where
  "ship_cells_xy ship =
     map (\<lambda>i. (snd (ship_cell_rc ship i), fst (ship_cell_rc ship i)))
         [0..length_ship ship - 1]"

fun getShipOccupiedCells_loop :: "ActiveShip list \<Rightarrow> int \<Rightarrow> int \<Rightarrow> (int \<times> int) list" where
  "getShipOccupiedCells_loop [] x y = []"
| "getShipOccupiedCells_loop (ship # rest) x y =
     (if belongsToShip ship x y then ship_cells_xy ship
      else getShipOccupiedCells_loop rest x y)"

definition getShipOccupiedCells :: "BoardData \<Rightarrow> int \<Rightarrow> int \<Rightarrow> (int \<times> int) list" where
  "getShipOccupiedCells b x y = getShipOccupiedCells_loop (myShips b) x y"

section \<open>Ship catalogue (data/ship_data.hpp)\<close>

record ShipConfiguration =
  cfg_boardSize :: int
  fourDeck :: int
  threeDeck :: int
  twoDeck :: int
  oneDeck :: int
  shotsPerTurn :: int

record GamePiece =
  piece_length :: int
  piece_symbol :: char

definition mkConfig :: "int \<Rightarrow> int \<Rightarrow> int \<Rightarrow> int \<Rightarrow> int \<Rightarrow> int \<Rightarrow> ShipConfiguration" where
  "mkConfig n a b c d s =
     \<lparr> cfg_boardSize = n, fourDeck = a, threeDeck = b, twoDeck = c, oneDeck = d,
       shotsPerTurn = s \<rparr>"

definition configs :: "ShipConfiguration list" where
  "configs =
     [mkConfig 10 1 2 3 4 5, mkConfig 11 1 2 4 5 5, mkConfig 12 1 3 4 6 5,
      mkConfig 13 1 3 5 6 5, mkConfig 14 2 3 5 7 6, mkConfig 15 2 4 6 8 6,
      mkConfig 16 2 4 6 9 6, mkConfig 17 2 4 7 9 6, mkConfig 18 2 5 7 10 7,
      mkConfig 19 3 5 8 11 7, mkConfig 20 3 5 8 12 7, mkConfig 21 3 6 9 13 7,
      mkConfig 22 3 6 9 14 7, mkConfig 23 4 6 10 15 8, mkConfig 24 4 7 10 16 8,
      mkConfig 25 4 7 11 17 8, mkConfig 26 4 7 11 18 9]"

fun getShipConfig_loop :: "ShipConfiguration list \<Rightarrow> int \<Rightarrow> ShipConfiguration" where
  "getShipConfig_loop [] n = mkConfig 10 1 2 3 4 5"
| "getShipConfig_loop (c # cs) n =
     (if cfg_boardSize c = n then c else getShipConfig_loop cs n)"

definition getShipConfig :: "int \<Rightarrow> ShipConfiguration" where
  "getShipConfig n = getShipConfig_loop configs n"

definition getTotalShips :: "int \<Rightarrow> int" where
  "getTotalShips n =
     (let config = getShipConfig n
      in fourDeck config + threeDeck config + twoDeck config + oneDeck config)"

section \<open>Game logic (logic/game_logic.cpp)\<close>

subsection \<open>initializeGamePieces\<close>

text \<open>
  One of the four creation loops: \<open>cnt\<close> pieces of length \<open>len\<close>, the symbol
  \<open>'A' + (shipCounter % 26)\<close>, and a status entry with origin \<open>(-1, -1)\<close>.
\<close>

fun createPieces ::
  "nat \<Rightarrow> int \<Rightarrow> (char \<rightharpoonup> ActiveShip) \<times> GamePiece list \<times> int
     \<Rightarrow> (char \<rightharpoonup> ActiveShip) \<times> GamePiece list \<times> int" where
  "createPieces 0 len acc = acc"
| "createPieces (Suc cnt) len (status, pieces, shipCounter) =
     (let symb = char_of (65 + nat (shipCounter mod 26));
          s = \<lparr> id_ship = shipCounter, symbol = symb, length_ship = len, hitCount = 0,
                isSunk = False, startRow = -1, startCol = -1, orientation = 0 \<rparr>
      in createPieces cnt len
           (status(symb \<mapsto> s),
            pieces @ [\<lparr> piece_length = len, piece_symbol = symb \<rparr>],
            shipCounter + 1))"

definition initializeGamePieces :: "BoardData \<Rightarrow> BoardData \<times> GamePiece list" where
  "initializeGamePieces b =
     (let config = getShipConfig (boardSize b);
          acc4 = createPieces (nat (fourDeck config)) 4 (Map.empty, [], 0);
          acc3 = createPieces (nat (threeDeck config)) 3 acc4;
          acc2 = createPieces (nat (twoDeck config)) 2 acc3;
          (status, pieces, cnt) = createPieces (nat (oneDeck config)) 1 acc2
      in (b\<lparr> shipStatus := status, myShips := [] \<rparr>, pieces))"

subsection \<open>checkStartingPeg\<close>

text \<open>
  Returns 1 = valid, 2 = out of bounds, 3 = collision.  Orientation 1 is vertical
  (downwards), any other value horizontal (leftwards).  The loops run over
  \<open>j = 0 .. piece_length - 1\<close>.
\<close>

fun checkPegDown :: "BoardData \<Rightarrow> int \<Rightarrow> int list \<Rightarrow> int option" where
  "checkPegDown b peg [] = Some 1"
| "checkPegDown b peg (j # js) =
     (if boardSize b = 0 then None
      else if (peg sdiv boardSize b) + j \<ge> boardSize b then Some 2
      else case get_cell (boardArray b) ((peg sdiv boardSize b) + j) (peg smod boardSize b) of
        None \<Rightarrow> None
      | Some c \<Rightarrow> if c \<noteq> CHR ''w'' then Some 3 else checkPegDown b peg js)"

fun checkPegLeft :: "BoardData \<Rightarrow> int \<Rightarrow> int list \<Rightarrow> int option" where
  "checkPegLeft b peg [] = Some 1"
| "checkPegLeft b peg (j # js) =
     (if boardSize b = 0 then None
      else if (peg smod boardSize b) - j < 0 then Some 2
      else case get_cell (boardArray b) (peg sdiv boardSize b) ((peg smod boardSize b) - j) of
        None \<Rightarrow> None
      | Some c \<Rightarrow> if c \<noteq> CHR ''w'' then Some 3 else checkPegLeft b peg js)"

definition checkStartingPeg :: "BoardData \<Rightarrow> int \<Rightarrow> int \<Rightarrow> int \<Rightarrow> int option" where
  "checkStartingPeg b orient starting_peg piece_len =
     (if orient = 1 then checkPegDown b starting_peg [0..piece_len - 1]
      else checkPegLeft b starting_peg [0..piece_len - 1])"

subsection \<open>isValidShipPlacement and placeShip\<close>

text \<open>
  Orientation 0 is horizontal (leftwards from \<open>gridX\<close>), any other value vertical
  (upwards from \<open>gridY\<close>).  Only the coordinate that varies is compared with the board
  size before the cell is read.
\<close>

fun validLeft :: "BoardData \<Rightarrow> int \<Rightarrow> int \<Rightarrow> int list \<Rightarrow> bool option" where
  "validLeft b gridX gridY [] = Some True"
| "validLeft b gridX gridY (i # is) =
     (let checkX = gridX - i in
      if checkX < 0 \<or> checkX \<ge> boardSize b then Some False
      else case get_cell (boardArray b) gridY checkX of
        None \<Rightarrow> None
      | Some c \<Rightarrow> if c \<noteq> CHR ''w'' then Some False else validLeft b gridX gridY is)"

fun validUp :: "BoardData \<Rightarrow> int \<Rightarrow> int \<Rightarrow> int list \<Rightarrow> bool option" where
  "validUp b gridX gridY [] = Some True"
| "validUp b gridX gridY (i # is) =
     (let checkY = gridY - i in
      if checkY < 0 \<or> checkY \<ge> boardSize b then Some False
      else case get_cell (boardArray b) checkY gridX of
        None \<Rightarrow> None
      | Some c \<Rightarrow> if c \<noteq> CHR ''w'' then Some False else validUp b gridX gridY is)"

definition isValidShipPlacement ::
  "BoardData \<Rightarrow> int \<Rightarrow> int \<Rightarrow> int \<Rightarrow> int \<Rightarrow> bool option" where
  "isValidShipPlacement b gridX gridY orient len =
     (if orient = 0 then validLeft b gridX gridY [0..len - 1]
      else validUp b gridX gridY [0..len - 1])"

definition placeShip ::
  "BoardData \<Rightarrow> int \<Rightarrow> int \<Rightarrow> int \<Rightarrow> int \<Rightarrow> char \<Rightarrow> (bool \<times> BoardData) option" where
  "placeShip b gridX gridY orient len symb =
     (case isValidShipPlacement b gridX gridY orient len of
        None \<Rightarrow> None
      | Some False \<Rightarrow> Some (False, b)
      | Some True \<Rightarrow>
          (case writeCells (boardArray b)
                  (if orient = 0 then map (\<lambda>i. (gridY, gridX - i)) [0..len - 1]
                   else map (\<lambda>i. (gridY - i, gridX)) [0..len - 1]) symb of
             None \<Rightarrow> None
           | Some g \<Rightarrow> Some (True, b\<lparr> boardArray := g \<rparr>)))"

subsection \<open>generateBoardPlacement\<close>

text \<open>
  \<open>rand()\<close> is modelled by a tape \<open>rs\<close> of the successive values it returns after
  the \<open>srand\<close> call, read at a position that is threaded through the code.

  The inner \<open>while\<close> loop either finds a placement (\<open>Placed orientation peg\<close>) or
  gives up after more than \<open>MAX_ATTEMPTS = 1000\<close> attempts (\<open>Restart\<close>); it
  terminates because \<open>attempts\<close> grows in every round.
\<close>

datatype placement = Placed int int nat | Restart nat

function placeLoop ::
  "BoardData \<Rightarrow> (nat \<Rightarrow> nat) \<Rightarrow> nat \<Rightarrow> int \<Rightarrow> int \<Rightarrow> int \<Rightarrow> int \<Rightarrow> placement option" where
  "placeLoop b rs k orient peg len attempts =
     (case checkStartingPeg b orient peg len of
        None \<Rightarrow> None
      | Some ret \<Rightarrow>
          if ret = 1 then Some (Placed orient peg k)
          else
            (case (if ret = 2
                   then checkStartingPeg b (if orient = 1 then 2 else 1) peg len
                   else Some ret) of
               None \<Rightarrow> None
             | Some ret2 \<Rightarrow>
                 if ret = 2 \<and> ret2 = 1 then Some (Placed (if orient = 1 then 2 else 1) peg k)
                 else if boardSize b * boardSize b = 0 then None
                 else if attempts + 1 > 1000 then Some (Restart (k + 2))
                 else placeLoop b rs (k + 2) (int (rs (k + 1)) mod 2 + 1)
                        (int (rs k) mod (boardSize b * boardSize b)) len (attempts + 1)))"
  by pat_completeness auto
termination
  by (relation "measure (\<lambda>(b, rs, k, orient, peg, len, attempts). nat (1001 - attempts))")
     auto

text \<open>
  The outer \<open>for\<close> loop over the pieces.  A restart clears the board and sets the
  index back to the first piece, so the loop need not terminate: \<open>fuel\<close> bounds
  the number of its rounds, and \<open>None\<close> is returned when it runs out (or when the
  source indexes a vector out of range or divides by zero).
\<close>

fun genLoop ::
  "nat \<Rightarrow> BoardData \<Rightarrow> GamePiece list \<Rightarrow> nat \<Rightarrow> (nat \<Rightarrow> nat) \<Rightarrow> nat \<Rightarrow> (BoardData \<times> nat) option"
  where
  "genLoop fuel b pieces i rs k =
     (if i \<ge> length pieces then Some (b, k)
      else case fuel of
        0 \<Rightarrow> None
      | Suc fuel' \<Rightarrow>
          if boardSize b * boardSize b = 0 then None
          else
            (case placeLoop b rs (k + 2) (int (rs (k + 1)) mod 2 + 1)
                    (int (rs k) mod (boardSize b * boardSize b))
                    (piece_length (pieces ! i)) 0 of
               None \<Rightarrow> None
             | Some (Restart k') \<Rightarrow>
                 (case clear b of None \<Rightarrow> None
                  | Some b' \<Rightarrow> genLoop fuel' b' pieces 0 rs k')
             | Some (Placed orient peg k') \<Rightarrow>
                 (case addShip b orient peg (piece_length (pieces ! i))
                         (piece_symbol (pieces ! i)) of
                    None \<Rightarrow> None
                  | Some b' \<Rightarrow> genLoop fuel' b' pieces (Suc i) rs k')))"

definition generateBoardPlacement ::
  "nat \<Rightarrow> BoardData \<Rightarrow> GamePiece list \<Rightarrow> (nat \<Rightarrow> nat) \<Rightarrow> BoardData option" where
  "generateBoardPlacement fuel b pieces rs = map_option fst (genLoop fuel b pieces 0 rs 0)"

text \<open>
  \<open>buildShipCellMap\<close>: the map from (x, y) to the ship letter found at row y,
  column x, for a board whose array has \<open>boardSize\<close> rows and columns (the reads of
  the source are not bounds-checked).
\<close>

definition buildShipCellMap :: "BoardData \<Rightarrow> BoardData" where
  "buildShipCellMap b =
     b\<lparr> shipCellMap := (\<lambda>(j, i).
          if 0 \<le> i \<and> i < boardSize b \<and> 0 \<le> j \<and> j < boardSize b
          then (case get_cell (boardArray b) i j of
                  Some c \<Rightarrow> if is_ship_char c then Some c else None
                | None \<Rightarrow> None)
          else None) \<rparr>"

section \<open>AI opponent (logic/ai_logic.hpp, logic/ai_logic.cpp)\<close>

datatype AIDifficulty = EASY | SMART

text \<open>\<open>AICoordinates\<close> is the pair (x, y).\<close>

type_synonym AICoordinates = "int \<times> int"

record AILogic =
  difficulty :: AIDifficulty
  aiBoard :: BoardData
  opponentBoard :: grid
  lastHit :: AICoordinates
  hunting :: bool
  huntDirection :: int
  availableShots :: "AICoordinates list"
  targetQueue :: "AICoordinates list"
  parityShots :: "AICoordinates list"
  attackSeed :: int
  boardSizeAI :: int

subsection \<open>initializeAvailableShots\<close>

text \<open>
  \<open>std::random_shuffle\<close> is library code; it is modelled as the GNU implementation
  \<open>for (i = first + 1; i != last; ++i) iter_swap(i, first + rand() % ((i - first) + 1))\<close>.
  The theorems below use only that the result is a permutation of the input.
\<close>

fun random_shuffle_loop :: "'a list \<Rightarrow> nat list \<Rightarrow> (nat \<Rightarrow> nat) \<Rightarrow> nat \<Rightarrow> 'a list \<times> nat" where
  "random_shuffle_loop xs [] rs k = (xs, k)"
| "random_shuffle_loop xs (i # is) rs k =
     (let j = rs k mod (i + 1)
      in random_shuffle_loop (if i \<noteq> j then xs[i := xs ! j, j := xs ! i] else xs)
           is rs (Suc k))"

definition random_shuffle :: "'a list \<Rightarrow> (nat \<Rightarrow> nat) \<Rightarrow> nat \<Rightarrow> 'a list \<times> nat" where
  "random_shuffle xs rs k = random_shuffle_loop xs [1..<length xs] rs k"

text \<open>The nested generation loops: rows \<open>i\<close>, columns \<open>j\<close>, coordinate \<open>(x, y) = (j, i)\<close>.\<close>

fun genRow ::
  "int \<Rightarrow> int list \<Rightarrow> AICoordinates list \<times> AICoordinates list
     \<Rightarrow> AICoordinates list \<times> AICoordinates list" where
  "genRow i [] acc = acc"
| "genRow i (j # js) (avail, parity) =
     genRow i js (avail @ [(j, i)],
                  if (j + i) smod 2 = 0 then parity @ [(j, i)] else parity)"

fun genRows ::
  "int \<Rightarrow> int list \<Rightarrow> AICoordinates list \<times> AICoordinates list
     \<Rightarrow> AICoordinates list \<times> AICoordinates list" where
  "genRows n [] acc = acc"
| "genRows n (i # is) acc = genRows n is (genRow i [0..n - 1] acc)"

text \<open>\<open>srand(time(0))\<close> restarts the generator: the tape \<open>rs\<close> is read from position 0.\<close>

definition initializeAvailableShots :: "AILogic \<Rightarrow> (nat \<Rightarrow> nat) \<Rightarrow> AILogic" where
  "initializeAvailableShots ai rs =
     (let (avail, parity) = genRows (boardSizeAI ai) [0..boardSizeAI ai - 1] ([], []);
          (avail', k) = random_shuffle avail rs 0;
          (parity', k') = random_shuffle parity rs k
      in ai\<lparr> availableShots := avail', parityShots := parity' \<rparr>)"

subsection \<open>addSmartNeighbors and recordShotResult\<close>

text \<open>The loop over \<open>dx[] = {0, 0, -1, 1}\<close>, \<open>dy[] = {-1, 1, 0, 0}\<close>.\<close>

fun addSmartNeighbors_loop ::
  "AILogic \<Rightarrow> int \<Rightarrow> int \<Rightarrow> (int \<times> int) list \<Rightarrow> AILogic option" where
  "addSmartNeighbors_loop ai x y [] = Some ai"
| "addSmartNeighbors_loop ai x y ((dx, dy) # ds) =
     (let nx = x + dx; ny = y + dy in
      if nx \<ge> 0 \<and> nx < boardSizeAI ai \<and> ny \<ge> 0 \<and> ny < boardSizeAI ai then
        (case get_cell (opponentBoard ai) ny nx of
           None \<Rightarrow> None
         | Some c \<Rightarrow>
             if c = CHR ''?'' \<or> c = CHR '' ''
             then addSmartNeighbors_loop (ai\<lparr> targetQueue := targetQueue ai @ [(nx, ny)] \<rparr>)
                    x y ds
             else addSmartNeighbors_loop ai x y ds)
      else addSmartNeighbors_loop ai x y ds)"

definition addSmartNeighbors :: "AILogic \<Rightarrow> int \<Rightarrow> int \<Rightarrow> AILogic option" where
  "addSmartNeighbors ai x y =
     addSmartNeighbors_loop ai x y [(0, -1), (0, 1), (-1, 0), (1, 0)]"

definition recordShotResult :: "AILogic \<Rightarrow> int \<Rightarrow> int \<Rightarrow> bool \<Rightarrow> bool \<Rightarrow> AILogic option" where
  "recordShotResult ai x y hit sunk =
     (if x \<ge> 0 \<and> x < boardSizeAI ai \<and> y \<ge> 0 \<and> y < boardSizeAI ai then
        (case set_cell (opponentBoard ai) y x (if hit then CHR ''X'' else CHR ''O'') of
           None \<Rightarrow> None
         | Some g \<Rightarrow>
             (case (if difficulty ai = SMART
                    then (case (if hit \<and> \<not> sunk
                                then addSmartNeighbors (ai\<lparr> opponentBoard := g \<rparr>) x y
                                else Some (ai\<lparr> opponentBoard := g \<rparr>)) of
                            None \<Rightarrow> None
                          | Some ai1 \<Rightarrow>
                              Some (if sunk then ai1\<lparr> hunting := False, lastHit := (-1, -1) \<rparr>
                                    else ai1))
                    else Some (ai\<lparr> opponentBoard := g \<rparr>)) of
                None \<Rightarrow> None
              | Some ai2 \<Rightarrow>
                  Some (if hit then ai2\<lparr> lastHit := (x, y), hunting := True \<rparr> else ai2)))
      else Some ai)"

subsection \<open>pickAttackCoordinates\<close>

text \<open>The linear search for a coordinate in a vector, returning the first index.\<close>

fun findCoord :: "AICoordinates list \<Rightarrow> AICoordinates \<Rightarrow> nat \<Rightarrow> nat option" where
  "findCoord [] c i = None"
| "findCoord (a # as) c i =
     (if fst a = fst c \<and> snd a = snd c then Some i else findCoord as c (Suc i))"

text \<open>\<open>v.erase(v.begin() + i)\<close> for an index inside the vector.\<close>

definition erase_at :: "'a list \<Rightarrow> nat \<Rightarrow> 'a list" where
  "erase_at xs i = take i xs @ drop (Suc i) xs"

text \<open>The search loop followed by \<open>erase\<close> and \<open>break\<close> at the first match.\<close>

definition erase_coord :: "AICoordinates list \<Rightarrow> AICoordinates \<Rightarrow> AICoordinates list" where
  "erase_coord xs c = (case findCoord xs c 0 of None \<Rightarrow> xs | Some i \<Rightarrow> erase_at xs i)"

text \<open>
  The \<open>while (!targetQueue.empty())\<close> loop: pops entries until one is found in
  \<open>availableShots\<close>.  Returns the queue that is left, and the entry with its index
  in \<open>availableShots\<close> when one was found.
\<close>

fun queueLoop ::
  "AICoordinates list \<Rightarrow> AICoordinates list
     \<Rightarrow> AICoordinates list \<times> (AICoordinates \<times> nat) option" where
  "queueLoop [] avail = ([], None)"
| "queueLoop (coord # queue) avail =
     (case findCoord avail coord 0 of
        Some removeIndex \<Rightarrow> (queue, Some (coord, removeIndex))
      | None \<Rightarrow> queueLoop queue avail)"

text \<open>
  \<open>r\<close> is the value \<open>rand()\<close> returns if the call reaches it; the Boolean of the
  result tells whether it was consumed.
\<close>

definition pickAttackCoordinates :: "AILogic \<Rightarrow> nat \<Rightarrow> AICoordinates \<times> AILogic \<times> bool" where
  "pickAttackCoordinates ai r =
     (if availableShots ai = [] then ((-1, -1), ai, False)
      else if difficulty ai = EASY then
        (let index = r mod length (availableShots ai)
         in (availableShots ai ! index,
             ai\<lparr> availableShots := erase_at (availableShots ai) index \<rparr>, True))
      else
        (case queueLoop (targetQueue ai) (availableShots ai) of
           (queue, Some (coord, removeIndex)) \<Rightarrow>
             (coord,
              ai\<lparr> targetQueue := queue,
                  availableShots := erase_at (availableShots ai) removeIndex,
                  parityShots := erase_coord (parityShots ai) coord \<rparr>, False)
         | (queue, None) \<Rightarrow>
             if parityShots ai \<noteq> [] then
               (last (parityShots ai),
                ai\<lparr> targetQueue := queue,
                    parityShots := butlast (parityShots ai),
                    availableShots := erase_coord (availableShots ai) (last (parityShots ai)) \<rparr>,
                False)
             else
               (let index = r mod length (availableShots ai)
                in (availableShots ai ! index,
                    ai\<lparr> targetQueue := queue,
                        availableShots := erase_at (availableShots ai) index \<rparr>, True))))"

subsection \<open>Constructor\<close>

definition setupBoard :: "AILogic \<Rightarrow> nat \<Rightarrow> (nat \<Rightarrow> nat) \<Rightarrow> AILogic option" where
  "setupBoard ai fuel rs =
     (let (b, pieces) =
            initializeGamePieces (initialize ((aiBoard ai)\<lparr> isHost := False \<rparr>) (boardSizeAI ai))
      in case generateBoardPlacement fuel b pieces rs of
           None \<Rightarrow> None
         | Some b' \<Rightarrow> Some (ai\<lparr> aiBoard := buildShipCellMap b' \<rparr>))"

text \<open>
  \<open>AILogic(diff, size)\<close>.  \<open>seed\<close> stands for \<open>time(NULL) + 12345\<close>, \<open>rsShuffle\<close>
  for the values of \<open>rand()\<close> after \<open>srand(time(0))\<close>, \<open>rsPlace\<close> for those after
  the \<open>srand\<close> of \<open>generateBoardPlacement\<close>.
\<close>

definition AILogic_new ::
  "AIDifficulty \<Rightarrow> int \<Rightarrow> int \<Rightarrow> (nat \<Rightarrow> nat) \<Rightarrow> nat \<Rightarrow> (nat \<Rightarrow> nat) \<Rightarrow> AILogic option" where
  "AILogic_new diff n seed rsShuffle fuel rsPlace =
     setupBoard
       (initializeAvailableShots
          \<lparr> difficulty = diff, aiBoard = BoardData_new n,
            opponentBoard = replicate (nat n) (replicate (nat n) (CHR ''?'')),
            lastHit = (-1, -1), hunting = False, huntDirection = 0,
            availableShots = [], targetQueue = [], parityShots = [],
            attackSeed = seed, boardSizeAI = n \<rparr> rsShuffle)
       fuel rsPlace"

section \<open>Turn engine against the AI (game/game_loop.cpp, \<open>isAI = true\<close>)\<close>

text \<open>
  The state that \<open>runGameLoop\<close> mutates when the opponent is the AI: the two
  boards passed by reference, the fog view, the AI object behind \<open>aiPtr\<close>, the
  four counters, and the position on the tape of \<open>rand()\<close> values.  Drawing,
  sleeping and the per-volley display counters are left out: they write no state
  that the engine reads back.
\<close>

record GameLoop =
  playerBoard :: BoardData
  enemyBoard :: BoardData
  enemyKnownBoard :: grid
  ai :: AILogic
  playerHits :: int
  enemyHits :: int
  playerShipsRemaining :: int
  enemyShipsRemaining :: int
  randPos :: nat

definition GameLoop_new :: "BoardData \<Rightarrow> BoardData \<Rightarrow> grid \<Rightarrow> int \<Rightarrow> AILogic \<Rightarrow> nat \<Rightarrow> GameLoop" where
  "GameLoop_new pb eb known n a k =
     \<lparr> playerBoard = pb, enemyBoard = eb, enemyKnownBoard = known, ai = a,
       playerHits = 0, enemyHits = 0,
       playerShipsRemaining = getTotalShips n, enemyShipsRemaining = getTotalShips n,
       randPos = k \<rparr>"

subsection \<open>Player's firing phase\<close>

text \<open>The body of \<open>for (int i = 0; i < shotsSelected; i++)\<close> up to the victory check.\<close>

definition playerShot :: "GameLoop \<Rightarrow> AICoordinates \<Rightarrow> GameLoop option" where
  "playerShot st shot =
     (let shotX = fst shot; shotY = snd shot in
      case receiveShot (aiBoard (ai st)) shotX shotY of
        None \<Rightarrow> None
      | Some (shotResult, ab) \<Rightarrow>
          (let st1 = st\<lparr> ai := (ai st)\<lparr> aiBoard := ab \<rparr> \<rparr> in
           if shotResult = 0 then
             (case set_cell (enemyKnownBoard st1) shotY shotX (CHR ''m'') of
                None \<Rightarrow> None
              | Some kb \<Rightarrow>
                  (case set_cell (boardArray (enemyBoard st1)) shotY shotX (CHR ''o'') of
                     None \<Rightarrow> None
                   | Some eb \<Rightarrow>
                       Some (st1\<lparr> enemyKnownBoard := kb,
                                  enemyBoard := (enemyBoard st1)\<lparr> boardArray := eb \<rparr> \<rparr>)))
           else if shotResult = 1 then
             (case set_cell (enemyKnownBoard st1) shotY shotX (CHR ''h'') of
                None \<Rightarrow> None
              | Some kb \<Rightarrow>
                  (case set_cell (boardArray (enemyBoard st1)) shotY shotX (CHR ''x'') of
                     None \<Rightarrow> None
                   | Some eb \<Rightarrow>
                       Some (st1\<lparr> playerHits := playerHits st1 + 1,
                                  enemyKnownBoard := kb,
                                  enemyBoard := (enemyBoard st1)\<lparr> boardArray := eb \<rparr> \<rparr>)))
           else if shotResult = 2 then
             (let sunkCells = map (\<lambda>cell. (snd cell, fst cell))
                                (getShipOccupiedCells ab shotX shotY) in
              case writeCells (enemyKnownBoard st1) sunkCells (CHR ''s'') of
                None \<Rightarrow> None
              | Some kb \<Rightarrow>
                  (case writeCells (boardArray (enemyBoard st1)) sunkCells (CHR ''s'') of
                     None \<Rightarrow> None
                   | Some eb \<Rightarrow>
                       Some (st1\<lparr> playerHits := playerHits st1 + 1,
                                  enemyShipsRemaining := enemyShipsRemaining st1 - 1,
                                  enemyKnownBoard := kb,
                                  enemyBoard := (enemyBoard st1)\<lparr> boardArray := eb \<rparr> \<rparr>)))
           else Some st1))"

text \<open>The loop over the selected shots, with its \<open>break\<close> on victory.\<close>

fun playerFire :: "GameLoop \<Rightarrow> AICoordinates list \<Rightarrow> GameLoop option" where
  "playerFire st [] = Some st"
| "playerFire st (shot # shots) =
     (case playerShot st shot of
        None \<Rightarrow> None
      | Some st' \<Rightarrow> if enemyShipsRemaining st' \<le> 0 then Some st' else playerFire st' shots)"

subsection \<open>AI's turn\<close>

text \<open>
  One round of \<open>for (int i = 0; i < enemyShotsCount; i++)\<close>: pick, resolve on the
  player's board, record the outcome in the AI.  \<open>None\<close> in the first component
  of the result stands for the \<open>break\<close> taken when the AI has no shot left.
\<close>

definition enemyShot ::
  "GameLoop \<Rightarrow> (nat \<Rightarrow> nat) \<Rightarrow> (AICoordinates option \<times> GameLoop) option" where
  "enemyShot st rs =
     (case pickAttackCoordinates (ai st) (rs (randPos st)) of
        (shot, a, used) \<Rightarrow>
          (let st1 = st\<lparr> ai := a, randPos := (if used then Suc (randPos st) else randPos st) \<rparr> in
           if fst shot = -1 \<or> snd shot = -1 then Some (None, st1)
           else
             (case receiveShot (playerBoard st1) (fst shot) (snd shot) of
                None \<Rightarrow> None
              | Some (result, pb) \<Rightarrow>
                  (let st2 = st1\<lparr> playerBoard := pb \<rparr> in
                   if result = 0 then
                     (case recordShotResult a (fst shot) (snd shot) False False of
                        None \<Rightarrow> None
                      | Some a' \<Rightarrow> Some (Some shot, st2\<lparr> ai := a' \<rparr>))
                   else if result = 1 then
                     (case recordShotResult a (fst shot) (snd shot) True False of
                        None \<Rightarrow> None
                      | Some a' \<Rightarrow>
                          Some (Some shot, st2\<lparr> ai := a', enemyHits := enemyHits st2 + 1 \<rparr>))
                   else
                     (case recordShotResult a (fst shot) (snd shot) True True of
                        None \<Rightarrow> None
                      | Some a' \<Rightarrow>
                          Some (Some shot,
                                st2\<lparr> ai := a', enemyHits := enemyHits st2 + 1,
                                     playerShipsRemaining := playerShipsRemaining st2 - 1 \<rparr>))))))"

text \<open>
  The loop itself; \<open>n\<close> counts the rounds that are left and \<open>fired\<close> is
  \<open>aiShotsFired\<close>.
\<close>

fun enemyFire ::
  "GameLoop \<Rightarrow> nat \<Rightarrow> (nat \<Rightarrow> nat) \<Rightarrow> AICoordinates list
     \<Rightarrow> (GameLoop \<times> AICoordinates list) option" where
  "enemyFire st 0 rs fired = Some (st, fired)"
| "enemyFire st (Suc n) rs fired =
     (case enemyShot st rs of
        None \<Rightarrow> None
      | Some (None, st') \<Rightarrow> Some (st', fired)
      | Some (Some shot, st') \<Rightarrow>
          if playerShipsRemaining st' \<le> 0 then Some (st', fired @ [shot])
          else enemyFire st' n rs (fired @ [shot]))"

subsection \<open>The main loop\<close>

text \<open>
  The selection phase is input handling; it hands the firing phase the list of
  cells the player selected before pressing F.  \<open>salvos\<close> is the list of these
  lists, one per player turn, and its end stands for the player quitting.
  \<open>LoopExit\<close> is the exit through the \<open>while\<close> condition.
\<close>

datatype Outcome = PlayerWins | EnemyWins | PlayerQuit | LoopExit

function runGameLoop ::
  "GameLoop \<Rightarrow> bool \<Rightarrow> int \<Rightarrow> AICoordinates list list \<Rightarrow> (nat \<Rightarrow> nat)
     \<Rightarrow> (Outcome \<times> GameLoop) option" where
  "runGameLoop st playerTurn shots salvos rs =
     (if \<not> (playerShipsRemaining st > 0 \<and> enemyShipsRemaining st > 0) then Some (LoopExit, st)
      else if playerTurn then
        (case salvos of
           [] \<Rightarrow> Some (PlayerQuit, st)
         | salvo # rest \<Rightarrow>
             (case playerFire st salvo of
                None \<Rightarrow> None
              | Some st' \<Rightarrow>
                  if enemyShipsRemaining st' \<le> 0 then Some (PlayerWins, st')
                  else runGameLoop st' False shots rest rs))
      else
        (case enemyFire st (nat shots) rs [] of
           None \<Rightarrow> None
         | Some (st', fired) \<Rightarrow>
             if playerShipsRemaining st' \<le> 0 then Some (EnemyWins, st')
             else runGameLoop st' True shots salvos rs))"
  by pat_completeness auto
termination
  by (relation "measure (\<lambda>(st, playerTurn, shots, salvos, rs).
                   2 * length salvos + (if playerTurn then 0 else 1))")
     auto

section \<open>Board setup for a game against the AI (game/game_controller.cpp, game/ai_game_loop.cpp)\<close>

text \<open>
  \<open>setupPlayerBoard\<close> up to the point where it waits for the user's decision: the
  board is initialised, the pieces are created, placed at random and registered by
  \<open>addShip\<close>, and the cell map is built.  The key Y accepts this board; the key M
  clears it and hands over to the manual placement.
\<close>

definition setupPlayerBoard ::
  "BoardData \<Rightarrow> int \<Rightarrow> nat \<Rightarrow> (nat \<Rightarrow> nat) \<Rightarrow> (BoardData \<times> GamePiece list) option" where
  "setupPlayerBoard board n fuel rs =
     (let (b, pieces) = initializeGamePieces ((initialize board n)\<lparr> isHost := True \<rparr>)
      in case generateBoardPlacement fuel b pieces rs of
           None \<Rightarrow> None
         | Some b' \<Rightarrow> Some (buildShipCellMap b', pieces))"

text \<open>
  The ship placement loop of \<open>playAIGame\<close>.  Moving the cursor and rotating are input
  handling; \<open>presses\<close> lists the positions \<open>(gridX, gridY, orientation)\<close> at which the
  user confirms with Enter.  A confirmed position goes to \<open>placeShip\<close>; when that
  returns true the next piece is taken, otherwise the same piece stays to be placed.
  (The source acts on Enter only where \<open>highlightShipPlacement\<close> found the
  placement valid, by the test that \<open>placeShip\<close> repeats; a press at a position
  that \<open>placeShip\<close> refuses changes nothing, here as there.)
\<close>

fun manualPlacement ::
  "BoardData \<Rightarrow> GamePiece list \<Rightarrow> (int \<times> int \<times> int) list \<Rightarrow> BoardData option" where
  "manualPlacement b [] presses = Some b"
| "manualPlacement b (ship # pieces) [] = Some b"
| "manualPlacement b (ship # pieces) ((gridX, gridY, orient) # presses) =
     (case placeShip b gridX gridY orient (piece_length ship) (piece_symbol ship) of
        None \<Rightarrow> None
      | Some (placed, b') \<Rightarrow>
          if placed then manualPlacement b' pieces presses
          else manualPlacement b' (ship # pieces) presses)"

text \<open>
  The manual placement mode of \<open>playAIGame\<close>, entered with the board that
  \<open>setupPlayerBoard\<close> has cleared: \<open>initializeGamePieces\<close>, the placement loop, and
  \<open>buildShipCellMap\<close>.
\<close>

definition manualSetup :: "BoardData \<Rightarrow> (int \<times> int \<times> int) list \<Rightarrow> BoardData option" where
  "manualSetup board presses =
     (let (b, pieces) = initializeGamePieces board
      in map_option buildShipCellMap (manualPlacement b pieces presses))"

section \<open>Notions used to state the properties\<close>

text \<open>
  A board as the constructor, \<open>initialize\<close> and \<open>resize\<close> leave it: the array has
  \<open>boardSize\<close> rows of \<open>boardSize\<close> cells.
\<close>

definition wf_grid :: "int \<Rightarrow> grid \<Rightarrow> bool" where
  "wf_grid n g = (0 \<le> n \<and> length g = nat n \<and> list_all (\<lambda>row. length row = nat n) g)"

definition wf_board :: "BoardData \<Rightarrow> bool" where
  "wf_board b = wf_grid (boardSize b) (boardArray b)"

text \<open>A sequence of \<open>receiveShot\<close> calls, with the list of their results.\<close>

fun shots :: "BoardData \<Rightarrow> (int \<times> int) list \<Rightarrow> (int list \<times> BoardData) option" where
  "shots b [] = Some ([], b)"
| "shots b ((x, y) # ps) =
     (case receiveShot b x y of
        None \<Rightarrow> None
      | Some (r, b') \<Rightarrow>
          (case shots b' ps of None \<Rightarrow> None | Some (rs, b'') \<Rightarrow> Some (r # rs, b'')))"

text \<open>
  Scenario A: a 10 by 10 board, \<open>addShip(1, 55, 3, 'S')\<close> (the cells (5,5), (5,6),
  (5,7)), then the shots (0,0), (5,5), (5,5), (5,6), (5,7).  The value is the list
  of results and the final content of the cells (5,5), (5,6), (5,7) and (0,0).
\<close>

definition scenarioA_board :: BoardData where
  "scenarioA_board =
     (case addShip (BoardData_new 10) 1 55 3 (CHR ''S'') of
        Some b \<Rightarrow> b | None \<Rightarrow> BoardData_new 10)"

definition scenarioA :: "(int list \<times> char option list) option" where
  "scenarioA =
     (case addShip (BoardData_new 10) 1 55 3 (CHR ''S'') of
        None \<Rightarrow> None
      | Some b0 \<Rightarrow>
          (case shots b0 [(0, 0), (5, 5), (5, 5), (5, 6), (5, 7)] of
             None \<Rightarrow> None
           | Some (rs, b5) \<Rightarrow>
               Some (rs, map (\<lambda>(x, y). get_cell (boardArray b5) y x)
                            [(5, 5), (5, 6), (5, 7), (0, 0)])))"

text \<open>A 10 by 10 board whose cell (0,0) already holds a miss.\<close>

definition missed_board :: BoardData where
  "missed_board =
     (BoardData_new 10)\<lparr> boardArray := (water_grid 10)[0 := ''owwwwwwwww''], missCount := 1 \<rparr>"

text \<open>The invariant of a ship of the list.\<close>

definition ship_inv :: "ActiveShip \<Rightarrow> bool" where
  "ship_inv s =
     (0 \<le> hitCount s \<and> hitCount s \<le> length_ship s \<and> (isSunk s = (hitCount s = length_ship s)))"

text \<open>
  Boards reached from an empty board: the operations that place ships and that
  resolve shots, applied in sequence (a call that indexes the array out of range
  ends the run with \<open>None\<close>).  A placed ship has at least one cell.
\<close>

datatype board_op = AddShip int int int char | PlaceShip int int int int char | ReceiveShot int int

fun board_step :: "BoardData \<Rightarrow> board_op \<Rightarrow> BoardData option" where
  "board_step b (AddShip orient pos len symb) = addShip b orient pos len symb"
| "board_step b (PlaceShip gx gy orient len symb) =
     map_option snd (placeShip b gx gy orient len symb)"
| "board_step b (ReceiveShot x y) = map_option snd (receiveShot b x y)"

fun board_run :: "BoardData \<Rightarrow> board_op list \<Rightarrow> BoardData option" where
  "board_run b [] = Some b"
| "board_run b (p # ps) =
     (case board_step b p of None \<Rightarrow> None | Some b' \<Rightarrow> board_run b' ps)"

fun places_ship :: "board_op \<Rightarrow> bool" where
  "places_ship (AddShip orient pos len symb) = (1 \<le> len)"
| "places_ship (PlaceShip gx gy orient len symb) = True"
| "places_ship (ReceiveShot x y) = True"

text \<open>
  The fleet on a board, as the list of the cell lists (pairs (x, y)) of its ships.
  A manual placement that succeeds adds the cells of its ship; a random placement
  clears the board and places the given pieces, after which the fleet is that of
  the ship list; a shot leaves the fleet as it is.
\<close>

type_synonym fleet = "(int \<times> int) list list"

datatype fleet_op =
    Manual int int int int char
  | Random nat "GamePiece list" "nat \<Rightarrow> nat"
  | Fire int int

definition manual_cells :: "int \<Rightarrow> int \<Rightarrow> int \<Rightarrow> int \<Rightarrow> (int \<times> int) list" where
  "manual_cells gx gy orient len =
     (if orient = 0 then map (\<lambda>i. (gx - i, gy)) [0..len - 1]
      else map (\<lambda>i. (gx, gy - i)) [0..len - 1])"

fun fleet_step :: "BoardData \<times> fleet \<Rightarrow> fleet_op \<Rightarrow> (BoardData \<times> fleet) option" where
  "fleet_step (b, fl) (Manual gx gy orient len symb) =
     (case placeShip b gx gy orient len symb of
        None \<Rightarrow> None
      | Some (ok, b') \<Rightarrow> Some (b', if ok then fl @ [manual_cells gx gy orient len] else fl))"
| "fleet_step (b, fl) (Random fuel pieces rs) =
     (case clear b of
        None \<Rightarrow> None
      | Some b0 \<Rightarrow>
          (case generateBoardPlacement fuel b0 pieces rs of
             None \<Rightarrow> None
           | Some b' \<Rightarrow> Some (b', map ship_cells_xy (myShips b'))))"
| "fleet_step (b, fl) (Fire x y) =
     (case receiveShot b x y of None \<Rightarrow> None | Some (r, b') \<Rightarrow> Some (b', fl))"

fun fleet_run :: "BoardData \<times> fleet \<Rightarrow> fleet_op list \<Rightarrow> (BoardData \<times> fleet) option" where
  "fleet_run s [] = Some s"
| "fleet_run s (p # ps) =
     (case fleet_step s p of None \<Rightarrow> None | Some s' \<Rightarrow> fleet_run s' ps)"

text \<open>Ship symbols are the capital letters that \<open>initializeGamePieces\<close> hands out.\<close>

fun letters_only :: "fleet_op \<Rightarrow> bool" where
  "letters_only (Manual gx gy orient len symb) = is_ship_char symb"
| "letters_only (Random fuel pieces rs) = list_all (\<lambda>p. is_ship_char (piece_symbol p)) pieces"
| "letters_only (Fire x y) = True"

text \<open>The fleet invariant: no cell twice, and every cell of the fleet is a cell of the
  board that does not hold water.\<close>

definition occupied :: "BoardData \<Rightarrow> int \<times> int \<Rightarrow> bool" where
  "occupied b p =
     (case get_cell (boardArray b) (snd p) (fst p) of
        None \<Rightarrow> False | Some c \<Rightarrow> c \<noteq> CHR ''w'')"

definition fleet_inv :: "BoardData \<Rightarrow> fleet \<Rightarrow> bool" where
  "fleet_inv b fl = (wf_board b \<and> distinct (concat fl) \<and> list_all (occupied b) (concat fl))"

text \<open>The tape of a random placement that puts every ship of the 10 by 10 fleet
  where it is first tried.\<close>

definition demo_tape :: "nat \<Rightarrow> nat" where
  "demo_tape k =
     [0, 0, 2, 0, 4, 0, 6, 0, 8, 0, 50, 0, 52, 0, 54, 0, 56, 0, 58, 0, 0, 0] ! (k mod 22)"

definition demo_ops :: "fleet_op list" where
  "demo_ops =
     [Manual 5 5 0 3 (CHR ''A''), Manual 5 7 1 3 (CHR ''B''), Manual 9 9 1 2 (CHR ''B''),
      Fire 5 5,
      Random 20 (snd (initializeGamePieces (BoardData_new 10))) demo_tape,
      Fire 0 0, Fire 9 9]"

text \<open>
  The life of one AI object: calls of \<open>pickAttackCoordinates\<close> (with the value
  \<open>rand()\<close> would return) and of \<open>recordShotResult\<close>, in any order.  The run
  returns the coordinates picked, in order, and the final state.
\<close>

datatype ai_op = Pick nat | Record int int bool bool

fun ai_run :: "AILogic \<Rightarrow> ai_op list \<Rightarrow> (AICoordinates list \<times> AILogic) option" where
  "ai_run a [] = Some ([], a)"
| "ai_run a (Pick r # ops) =
     (case pickAttackCoordinates a r of
        (c, a', used) \<Rightarrow> map_option (\<lambda>(cs, a''). (c # cs, a'')) (ai_run a' ops))"
| "ai_run a (Record x y hit sunk # ops) =
     (case recordShotResult a x y hit sunk of None \<Rightarrow> None | Some a' \<Rightarrow> ai_run a' ops)"

text \<open>All cells of an n by n board, row by row, as (x, y).\<close>

definition all_cells :: "int \<Rightarrow> AICoordinates list" where
  "all_cells n = concat (map (\<lambda>i. map (\<lambda>j. (j, i)) [0..n - 1]) [0..n - 1])"

definition on_parity :: "AICoordinates \<Rightarrow> bool" where
  "on_parity c = ((fst c + snd c) smod 2 = 0)"

text \<open>The pools of a running AI: no cell twice, and for the smart AI the parity pool
  is part of the pool of available shots.\<close>

definition pool_inv :: "AILogic \<Rightarrow> bool" where
  "pool_inv a =
     (distinct (availableShots a) \<and>
      (difficulty a = SMART \<longrightarrow>
         distinct (parityShots a) \<and> list_all (\<lambda>c. c \<in> set (availableShots a)) (parityShots a)))"

text \<open>A short life of a 10 by 10 AI: two picks, a recorded hit, two more picks.\<close>

definition demo_ai_ops :: "ai_op list" where
  "demo_ai_ops = [Pick 3, Pick 14, Record 5 5 True False, Pick 7, Pick 1]"

definition demo_ai :: "AIDifficulty \<Rightarrow> AILogic option" where
  "demo_ai d = AILogic_new d 10 12345 (\<lambda>k. 7 * k + 3) 20 demo_tape"

text \<open>The life of a 10 by 10 AI that has picked a hundred times, once for every cell.\<close>

definition hundred_picks :: "ai_op list" where
  "hundred_picks = replicate 100 (Pick 0)"



definition game_start :: "AIDifficulty \<Rightarrow> BoardData \<Rightarrow> GameLoop option" where
  "game_start d pb =
     map_option
       (\<lambda>a. GameLoop_new pb (BoardData_new 10) (replicate 10 (replicate 10 (CHR '' ''))) 10 a 0)
       (demo_ai d)"


text \<open>The twenty cells of the fleet that \<open>demo_tape\<close> places, ship by ship.\<close>

definition fleet_cells :: "AICoordinates list" where
  "fleet_cells =
     [(0, 0), (0, 1), (0, 2), (0, 3), (2, 0), (2, 1), (2, 2), (4, 0), (4, 1), (4, 2),
      (6, 0), (6, 1), (8, 0), (8, 1), (0, 5), (0, 6), (2, 5), (4, 5), (6, 5), (8, 5)]"



text \<open>
  The player's board of a 10 by 10 game, set up in the two ways the game offers.
  \<open>generated_board\<close> is the board that \<open>setupPlayerBoard\<close> generates on
  \<open>demo_tape\<close> and the user accepts; its fleet lies on \<open>fleet_cells\<close>.
  \<open>manual_board\<close> is the board of a user who asks for manual placement instead and
  confirms the ten pieces at \<open>manual_presses\<close>; its fleet lies on
  \<open>manual_fleet_cells\<close>, the one-cell piece \<open>'J'\<close> on (7,7).
\<close>

definition generated_board :: "BoardData option" where
  "generated_board = map_option fst (setupPlayerBoard (BoardData_new 10) 10 20 demo_tape)"

definition manual_presses :: "(int \<times> int \<times> int) list" where
  "manual_presses =
     [(3, 0, 0), (3, 2, 0), (3, 4, 0), (1, 6, 0), (1, 8, 0), (9, 1, 1),
      (5, 5, 0), (7, 5, 0), (5, 7, 0), (7, 7, 0)]"

definition manual_board :: "BoardData option" where
  "manual_board =
     (case generated_board of
        None \<Rightarrow> None
      | Some b \<Rightarrow> (case clear b of None \<Rightarrow> None | Some b0 \<Rightarrow> manualSetup b0 manual_presses))"

definition manual_fleet_cells :: "(int \<times> int) list" where
  "manual_fleet_cells =
     [(3, 0), (2, 0), (1, 0), (0, 0), (3, 2), (2, 2), (1, 2), (3, 4), (2, 4), (1, 4),
      (1, 6), (0, 6), (1, 8), (0, 8), (9, 1), (9, 0), (5, 5), (7, 5), (5, 7), (7, 7)]"

text \<open>
  A 10 by 10 game against the easy AI as \<open>playAIGame\<close> starts it, with the generated
  board for the player and 26 shots per turn.  Both fleets lie on \<open>fleet_cells\<close>.
  On \<open>sharp_tape\<close> every shot of the AI falls on a cell of the player's fleet.
\<close>

definition real_game :: "GameLoop option" where
  "real_game = (case generated_board of None \<Rightarrow> None | Some pb \<Rightarrow> game_start EASY pb)"

definition sharp_tape :: "nat \<Rightarrow> nat" where
  "sharp_tape k =
     (if k < 20
      then [0, 1, 2, 3, 4, 5, 6, 7, 12, 31, 32, 33, 34, 35, 36, 75, 77, 77, 78, 78] ! k
      else 0)"

text \<open>
  The same game with the board the player filled by hand; on \<open>manual_tape\<close> every
  shot of the AI falls on a cell of that fleet.
\<close>

definition manual_game :: "GameLoop option" where
  "manual_game = (case manual_board of None \<Rightarrow> None | Some pb \<Rightarrow> game_start EASY pb)"

definition manual_tape :: "nat \<Rightarrow> nat" where
  "manual_tape k =
     (if k < 20
      then [9, 10, 10, 10, 27, 27, 27, 38, 39, 41, 41, 54, 55, 57, 57, 75, 76, 79, 80, 80] ! k
      else 0)"

text \<open>
  A play told shot by shot.  \<open>ByPlayer c\<close> is one round of the player's firing loop
  at the cell \<open>c\<close>, \<open>ByAI\<close> one round of the AI's loop.  \<open>game_run rs st ops\<close>
  resolves the shots \<open>ops\<close> one after the other from the state \<open>st\<close>, each of them
  fired while both counters are above zero; it has no value as soon as a shot would
  be resolved after a counter has reached zero.  \<open>player_shots\<close> lists the cells the
  player fired at.
\<close>

datatype shot_op = ByPlayer AICoordinates | ByAI

fun game_run :: "(nat \<Rightarrow> nat) \<Rightarrow> GameLoop \<Rightarrow> shot_op list \<Rightarrow> GameLoop option" where
  "game_run rs st [] = Some st"
| "game_run rs st (ByPlayer c # ops) =
     (if 0 < playerShipsRemaining st \<and> 0 < enemyShipsRemaining st
      then (case playerShot st c of None \<Rightarrow> None | Some st' \<Rightarrow> game_run rs st' ops)
      else None)"
| "game_run rs st (ByAI # ops) =
     (if 0 < playerShipsRemaining st \<and> 0 < enemyShipsRemaining st
      then (case enemyShot st rs of None \<Rightarrow> None | Some (c, st') \<Rightarrow> game_run rs st' ops)
      else None)"

fun player_shots :: "shot_op list \<Rightarrow> AICoordinates list" where
  "player_shots [] = []"
| "player_shots (ByPlayer c # ops) = c # player_shots ops"
| "player_shots (ByAI # ops) = player_shots ops"

section \<open>Properties of the board\<close>

subsection \<open>Reading and writing cells\<close>

lemma get_cell_wf:
  "wf_grid n g \<Longrightarrow> 0 \<le> r \<Longrightarrow> r < n \<Longrightarrow> 0 \<le> c \<Longrightarrow> c < n
   \<Longrightarrow> get_cell g r c = Some (g ! nat r ! nat c)"
  by (auto simp: wf_grid_def get_cell_def list_all_length)

lemma get_cell_Some_iff:
  "wf_grid n g \<Longrightarrow> (\<exists>v. get_cell g r c = Some v) = (0 \<le> r \<and> r < n \<and> 0 \<le> c \<and> c < n)"
  by (auto simp: wf_grid_def get_cell_def list_all_length)

lemma set_cell_wf:
  "wf_grid n g \<Longrightarrow> 0 \<le> r \<Longrightarrow> r < n \<Longrightarrow> 0 \<le> c \<Longrightarrow> c < n
   \<Longrightarrow> \<exists>g'. set_cell g r c v = Some g'"
  by (auto simp: wf_grid_def set_cell_def list_all_length)

lemma set_cell_preserves_wf:
  "set_cell g r c v = Some g' \<Longrightarrow> wf_grid n g \<Longrightarrow> wf_grid n g'"
  by (auto simp: wf_grid_def set_cell_def list_all_length nth_list_update split: if_splits)

lemma get_set_cell:
  "set_cell g r c v = Some g' \<Longrightarrow>
   get_cell g' r' c' = (if r' = r \<and> c' = c then Some v else get_cell g r' c')"
  by (auto simp: set_cell_def get_cell_def nth_list_update split: if_splits)

subsection \<open>Shots that change nothing\<close>

text \<open>
  Claim C2.  A shot outside \<open>[0, boardSize)\<close> in either coordinate, or at a cell
  that already holds a miss (\<open>'o'\<close>), a hit (\<open>'x'\<close>) or a sunk mark (\<open>'s'\<close>),
  returns 0 and leaves the whole board record as it was: grid, ship list, status
  map, miss counter.
\<close>

theorem receiveShot_no_effect:
  "x < 0 \<or> x \<ge> boardSize b \<or> y < 0 \<or> y \<ge> boardSize b \<or>
   get_cell (boardArray b) y x = Some (CHR ''o'') \<or>
   get_cell (boardArray b) y x = Some (CHR ''x'') \<or>
   get_cell (boardArray b) y x = Some (CHR ''s'')
   \<Longrightarrow> receiveShot b x y = Some (0, b)"
  by (auto simp: receiveShot_def)

theorem receiveShot_no_effect_witness:
  "receiveShot (BoardData_new 10) (- 1) 5 = Some (0, BoardData_new 10) \<and>
   receiveShot (BoardData_new 10) 5 10 = Some (0, BoardData_new 10) \<and>
   receiveShot missed_board 0 0 = Some (0, missed_board)"
proof -
  have cell: "get_cell (boardArray missed_board) 0 0 = Some (CHR ''o'')"
    by (simp add: missed_board_def get_cell_def BoardData_new_def water_grid_def)
  have size: "boardSize (BoardData_new 10) = 10"
    by (simp add: BoardData_new_def)
  show ?thesis
    using receiveShot_no_effect[of "- 1" "BoardData_new 10" 5]
      receiveShot_no_effect[of 5 "BoardData_new 10" 10]
      receiveShot_no_effect[of 0 missed_board 0] cell size
    by simp
qed

subsection \<open>Shots that hit a ship\<close>

lemma scenA: "scenarioA = Some ([0, 1, 0, 1, 2], [Some (CHR ''s''), Some (CHR ''s''), Some (CHR ''s''), Some (CHR ''o'')])"
  by code_simp

lemma is_ship_char_not_mark:
  "is_ship_char c \<Longrightarrow> c \<noteq> CHR ''x'' \<and> c \<noteq> CHR ''o'' \<and> c \<noteq> CHR ''s'' \<and> c \<noteq> CHR ''w''"
  by (auto simp: is_ship_char_def)

lemma findShip_first:
  "i < length ships \<Longrightarrow> \<not> isSunk (ships ! i) \<Longrightarrow> symbol (ships ! i) = symb \<Longrightarrow>
   isHit (ships ! i) x y \<Longrightarrow>
   \<forall>j<i. isSunk (ships ! j) \<or> symbol (ships ! j) \<noteq> symb \<or> \<not> isHit (ships ! j) x y \<Longrightarrow>
   findShip ships symb x y k = Some (k + i)"
proof (induction ships arbitrary: i k)
  case Nil
  then show ?case by simp
next
  case (Cons s ships)
  show ?case
  proof (cases i)
    case 0
    with Cons.prems show ?thesis by simp
  next
    case (Suc i')
    have skip: "isSunk s \<or> symbol s \<noteq> symb \<or> \<not> isHit s x y"
      using Cons.prems(5) Suc by auto
    have rest: "\<forall>j<i'. isSunk (ships ! j) \<or> symbol (ships ! j) \<noteq> symb \<or> \<not> isHit (ships ! j) x y"
      using Cons.prems(5) Suc by auto
    have "findShip ships symb x y (Suc k) = Some (Suc k + i')"
      using Cons.IH[of i' "Suc k"] Cons.prems Suc rest by simp
    with skip Suc show ?thesis by auto
  qed
qed

lemma markSunk_cells:
  "wf_grid n g \<Longrightarrow>
   \<exists>g'. markSunk n ship g js = Some g' \<and> wf_grid n g' \<and>
     (\<forall>r c. get_cell g' r c =
        (if (r, c) \<in> ship_cell_rc ship ` set js \<and> 0 \<le> r \<and> r < n \<and> 0 \<le> c \<and> c < n
         then Some (CHR ''s'') else get_cell g r c))"
proof (induction js arbitrary: g)
  case Nil
  then show ?case by simp
next
  case (Cons j js)
  obtain r0 c0 where rc: "ship_cell_rc ship j = (r0, c0)" by (cases "ship_cell_rc ship j")
  show ?case
  proof (cases "r0 \<ge> 0 \<and> r0 < n \<and> c0 \<ge> 0 \<and> c0 < n")
    case True
    then obtain g1 where g1: "set_cell g r0 c0 (CHR ''s'') = Some g1"
      using set_cell_wf[OF Cons.prems, of r0 c0] by auto
    have wf1: "wf_grid n g1" using set_cell_preserves_wf[OF g1 Cons.prems] .
    from Cons.IH[OF wf1] obtain g' where
      g': "markSunk n ship g1 js = Some g'" "wf_grid n g'"
      "\<forall>r c. get_cell g' r c =
        (if (r, c) \<in> ship_cell_rc ship ` set js \<and> 0 \<le> r \<and> r < n \<and> 0 \<le> c \<and> c < n
         then Some (CHR ''s'') else get_cell g1 r c)" by blast
    have "markSunk n ship g (j # js) = Some g'" using rc True g1 g'(1) by simp
    moreover have "\<forall>r c. get_cell g' r c =
        (if (r, c) \<in> ship_cell_rc ship ` set (j # js) \<and> 0 \<le> r \<and> r < n \<and> 0 \<le> c \<and> c < n
         then Some (CHR ''s'') else get_cell g r c)"
      using g'(3) get_set_cell[OF g1] rc True by auto
    ultimately show ?thesis using g'(2) by blast
  next
    case False
    from Cons.IH[OF Cons.prems] obtain g' where
      g': "markSunk n ship g js = Some g'" "wf_grid n g'"
      "\<forall>r c. get_cell g' r c =
        (if (r, c) \<in> ship_cell_rc ship ` set js \<and> 0 \<le> r \<and> r < n \<and> 0 \<le> c \<and> c < n
         then Some (CHR ''s'') else get_cell g r c)" by blast
    have "markSunk n ship g (j # js) = Some g'" using rc False g'(1) by auto
    moreover have "\<forall>r c. get_cell g' r c =
        (if (r, c) \<in> ship_cell_rc ship ` set (j # js) \<and> 0 \<le> r \<and> r < n \<and> 0 \<le> c \<and> c < n
         then Some (CHR ''s'') else get_cell g r c)"
      using g'(3) rc False by auto
    ultimately show ?thesis using g'(2) by blast
  qed
qed

lemma isSunk_False_upd:
  "\<not> isSunk (s::ActiveShip) \<Longrightarrow> s\<lparr> hitCount := h, isSunk := False \<rparr> = s\<lparr> hitCount := h \<rparr>"
  by (cases s) simp

lemma ship_cells_xy_iff:
  "((c, r) \<in> set (ship_cells_xy ship)) = ((r, c) \<in> ship_cell_rc ship ` set [0..length_ship ship - 1])"
  by (auto simp: ship_cells_xy_def image_iff prod_eq_iff)

text \<open>
  A ship of the ship list.  A shot at a cell inside the board that holds the symbol
  of a ship of the list which is afloat and lies under the shot (the first such ship,
  which is the one the loop finds) increments that ship's \<open>hitCount\<close>.  If the count
  then equals the ship's length, the ship is marked sunk, every cell of the ship
  becomes \<open>'s'\<close> and the result is 2; otherwise only the cell of the shot changes, to
  \<open>'x'\<close>, and the result is 1.  Scenario A, whose ship is registered by \<open>addShip\<close>,
  yields the results 0, 1, 0, 1, 2, and its three ship cells end as \<open>'s'\<close>.
\<close>

lemma receiveShot_on_ship:
  assumes wf: "wf_board b"
    and inb: "0 \<le> x" "x < boardSize b" "0 \<le> y" "y < boardSize b"
    and i: "i < length (myShips b)"
    and cell: "get_cell (boardArray b) y x = Some (symbol (myShips b ! i))"
    and letter: "is_ship_char (symbol (myShips b ! i))"
    and afloat: "\<not> isSunk (myShips b ! i)"
    and on: "isHit (myShips b ! i) x y"
    and first: "\<forall>j<i. isSunk (myShips b ! j) \<or> symbol (myShips b ! j) \<noteq> symbol (myShips b ! i)
                  \<or> \<not> isHit (myShips b ! j) x y"
    and inv: "hitCount (myShips b ! i) < length_ship (myShips b ! i)"
  shows "(let sh = myShips b ! i; sinks = (hitCount sh + 1 = length_ship sh) in
          \<exists>b'. receiveShot b x y = Some (if sinks then 2 else 1, b') \<and>
            myShips b' = (myShips b)[i := sh\<lparr> hitCount := hitCount sh + 1, isSunk := sinks \<rparr>] \<and>
            (\<forall>r c. get_cell (boardArray b') r c =
               (if sinks
                then (if (c, r) \<in> set (ship_cells_xy sh) \<and> 0 \<le> r \<and> r < boardSize b
                           \<and> 0 \<le> c \<and> c < boardSize b
                      then Some (CHR ''s'') else get_cell (boardArray b) r c)
                else (if r = y \<and> c = x then Some (CHR ''x'') else get_cell (boardArray b) r c))))
         \<and> scenarioA = Some ([0, 1, 0, 1, 2],
              [Some (CHR ''s''), Some (CHR ''s''), Some (CHR ''s''), Some (CHR ''o'')])"
proof -
  define sh where "sh = myShips b ! i"
  have wfg: "wf_grid (boardSize b) (boardArray b)" using wf by (simp add: wf_board_def)
  have fs: "findShip (myShips b) (symbol sh) x y 0 = Some i"
    using findShip_first[of i "myShips b" "symbol sh" x y 0] i afloat on first
    by (simp add: sh_def)
  have nm: "symbol sh \<noteq> CHR ''x''" "symbol sh \<noteq> CHR ''o''" "symbol sh \<noteq> CHR ''s''"
    "symbol sh \<noteq> CHR ''w''"
    using is_ship_char_not_mark[OF letter] by (simp_all add: sh_def)
  have rs: "receiveShot b x y = hitShip b x y i"
    using inb cell letter fs nm by (simp add: receiveShot_def sh_def)
  have main: "let sinks = (hitCount sh + 1 = length_ship sh) in
          \<exists>b'. hitShip b x y i = Some (if sinks then 2 else 1, b') \<and>
            myShips b' = (myShips b)[i := sh\<lparr> hitCount := hitCount sh + 1, isSunk := sinks \<rparr>] \<and>
            (\<forall>r c. get_cell (boardArray b') r c =
               (if sinks
                then (if (c, r) \<in> set (ship_cells_xy sh) \<and> 0 \<le> r \<and> r < boardSize b
                           \<and> 0 \<le> c \<and> c < boardSize b
                      then Some (CHR ''s'') else get_cell (boardArray b) r c)
                else (if r = y \<and> c = x then Some (CHR ''x'') else get_cell (boardArray b) r c)))"
  proof (cases "hitCount sh + 1 = length_ship sh")
    case True
    let ?ship' = "sh\<lparr> hitCount := hitCount sh + 1, isSunk := True \<rparr>"
    from markSunk_cells[OF wfg, of ?ship' "[0..length_ship sh - 1]"]
    obtain g' where g': "markSunk (boardSize b) ?ship' (boardArray b) [0..length_ship sh - 1] = Some g'"
      "\<forall>r c. get_cell g' r c =
        (if (r, c) \<in> ship_cell_rc ?ship' ` set [0..length_ship sh - 1] \<and> 0 \<le> r \<and> r < boardSize b \<and> 0 \<le> c \<and> c < boardSize b
         then Some (CHR ''s'') else get_cell (boardArray b) r c)" by blast
    have same: "ship_cell_rc ?ship' = ship_cell_rc sh"
      by (rule ext) (simp add: ship_cell_rc_def)
    show ?thesis
      using True g' same
      by (simp add: hitShip_def Let_def sh_def[symmetric] ship_cells_xy_iff)
  next
    case False
    obtain g' where g': "set_cell (boardArray b) y x (CHR ''x'') = Some g'"
      using set_cell_wf[OF wfg inb(3,4) inb(1,2)] by blast
    show ?thesis
      using False inv g' get_set_cell[OF g'] isSunk_False_upd[OF afloat]
      by (simp add: hitShip_def Let_def sh_def[symmetric])
  qed
  show ?thesis
    using main rs scenA by (simp add: Let_def sh_def[symmetric])
qed


lemma sb_wf: "wf_board scenarioA_board" by code_simp
lemma sb_size: "boardSize scenarioA_board = 10" by code_simp
lemma sb_ships: "myShips scenarioA_board =
    [\<lparr> id_ship = 0, symbol = CHR ''S'', length_ship = 3, hitCount = 0, isSunk = False,
       startRow = 5, startCol = 5, orientation = 1 \<rparr>]" by code_simp
lemma sb_cell: "get_cell (boardArray scenarioA_board) 5 5 = Some (CHR ''S'')" by code_simp

lemma receiveShot_on_ship_scenarioA:
  "\<exists>b'. receiveShot scenarioA_board 5 5 = Some (1, b') \<and> map hitCount (myShips b') = [1] \<and>
        map isSunk (myShips b') = [False] \<and>
        get_cell (boardArray b') 5 5 = Some (CHR ''x'') \<and>
        get_cell (boardArray b') 6 5 = Some (CHR ''S'')"
proof -
  have c65: "get_cell (boardArray scenarioA_board) 6 5 = Some (CHR ''S'')" by code_simp
  have "is_ship_char (CHR ''S'')" by (simp add: is_ship_char_def)
  moreover have "isHit (myShips scenarioA_board ! 0) 5 5" by (simp add: sb_ships isHit_def)
  ultimately show ?thesis
    using receiveShot_on_ship[of scenarioA_board 5 5 0] sb_wf sb_size sb_ships sb_cell c65
    by (auto simp: Let_def)
qed

text \<open>
  A letter cell under which the loop finds no ship of the list (as on a board filled
  by \<open>placeShip\<close>, which writes the letters and registers no ship) is marked
  \<open>'x'\<close> with result 1, and no ship changes.
\<close>

lemma receiveShot_letter_without_ship:
  assumes "wf_board b" and "0 \<le> x" "x < boardSize b" "0 \<le> y" "y < boardSize b"
    and "get_cell (boardArray b) y x = Some c" and "is_ship_char c"
    and "findShip (myShips b) c x y 0 = None"
  shows "\<exists>b'. receiveShot b x y = Some (1, b') \<and> myShips b' = myShips b \<and>
              get_cell (boardArray b') y x = Some (CHR ''x'')"
proof -
  have wfg: "wf_grid (boardSize b) (boardArray b)" using assms(1) by (simp add: wf_board_def)
  obtain g where g: "set_cell (boardArray b) y x (CHR ''x'') = Some g"
    using set_cell_wf[OF wfg assms(4,5) assms(2,3)] by blast
  from assms is_ship_char_not_mark[OF assms(7)] g get_set_cell[OF g, of y x]
  show ?thesis by (simp add: receiveShot_def)
qed

subsection \<open>Shots at a fleet placed by hand\<close>

lemma manual_board_cells:
  "map_option (\<lambda>b. (boardArray b, myShips b, map_option hitCount (shipStatus b (CHR ''J''))))
     manual_board
   = Some ([''AAAAwwwwwF'', ''wwwwwwwwwF'', ''wBBBwwwwww'', ''wwwwwwwwww'', ''wCCCwwwwww'',
            ''wwwwwGwHww'', ''DDwwwwwwww'', ''wwwwwIwJww'', ''EEwwwwwwww'', ''wwwwwwwwww''],
           [], Some 0)"
  by code_simp

lemma manual_board_one_cell_ship:
  "map_option (\<lambda>b. map_option
       (\<lambda>(r, b'). (r, get_cell (boardArray b') 7 7, map_option hitCount (shipStatus b' (CHR ''J'')),
                   map_option isSunk (shipStatus b' (CHR ''J'')), myShips b'))
       (receiveShot b 7 7)) manual_board
   = Some (Some (1, Some (CHR ''x''), Some 0, Some False, []))"
  by code_simp

lemma manual_board_whole_fleet:
  "map_option (\<lambda>b. map_option
       (\<lambda>(res, b'). (res, map (\<lambda>(x, y). get_cell (boardArray b') y x) manual_fleet_cells))
       (shots b manual_fleet_cells)) manual_board
   = Some (Some (replicate 20 1, replicate 20 (Some (CHR ''x''))))"
  by code_simp

text \<open>
  Claim C1.  The claim asks of a shot at a cell that holds a ship's symbol that it
  counts a hit for that ship and, when the last cell of the ship is hit, marks the
  ship's cells \<open>'s'\<close> and returns 2.  On the board of a player who placed the fleet
  by hand this fails: \<open>placeShip\<close> writes the letters and registers no ship, so the
  ship list is empty.  The shot at (7,7), the only cell of the piece \<open>'J'\<close>, returns
  1 and leaves \<open>'x'\<close>, with the hit count of \<open>'J'\<close> still 0 and the piece not sunk;
  shots at all twenty cells of the fleet return 1 twenty times, never 2, and no cell
  becomes \<open>'s'\<close>.
\<close>

theorem manual_fleet_never_sinks:
  "\<exists>b. manual_board = Some b \<and> myShips b = [] \<and>
       get_cell (boardArray b) 7 7 = Some (CHR ''J'') \<and>
       map_option hitCount (shipStatus b (CHR ''J'')) = Some 0 \<and>
       map_option (\<lambda>(r, b'). (r, get_cell (boardArray b') 7 7,
                               map_option hitCount (shipStatus b' (CHR ''J'')),
                               map_option isSunk (shipStatus b' (CHR ''J''))))
                  (receiveShot b 7 7)
         = Some (1, Some (CHR ''x''), Some 0, Some False) \<and>
       map_option (\<lambda>(res, b'). (res, map (\<lambda>(x, y). get_cell (boardArray b') y x)
                                        manual_fleet_cells))
                  (shots b manual_fleet_cells)
         = Some (replicate 20 1, replicate 20 (Some (CHR ''x'')))"
proof -
  from manual_board_cells obtain b where b: "manual_board = Some b"
    and g: "boardArray b =
       [''AAAAwwwwwF'', ''wwwwwwwwwF'', ''wBBBwwwwww'', ''wwwwwwwwww'', ''wCCCwwwwww'',
        ''wwwwwGwHww'', ''DDwwwwwwww'', ''wwwwwIwJww'', ''EEwwwwwwww'', ''wwwwwwwwww'']"
    and s: "myShips b = []" and h: "map_option hitCount (shipStatus b (CHR ''J'')) = Some 0"
    by auto
  have c: "get_cell (boardArray b) 7 7 = Some (CHR ''J'')"
    unfolding g by (simp add: get_cell_def)
  have one: "map_option (\<lambda>(r, b'). (r, get_cell (boardArray b') 7 7,
                               map_option hitCount (shipStatus b' (CHR ''J'')),
                               map_option isSunk (shipStatus b' (CHR ''J''))))
                  (receiveShot b 7 7)
         = Some (1, Some (CHR ''x''), Some 0, Some False)"
    using manual_board_one_cell_ship unfolding b
    by (cases "receiveShot b 7 7") auto
  have all: "map_option (\<lambda>(res, b'). (res, map (\<lambda>(x, y). get_cell (boardArray b') y x)
                                        manual_fleet_cells))
                  (shots b manual_fleet_cells)
         = Some (replicate 20 1, replicate 20 (Some (CHR ''x'')))"
    using manual_board_whole_fleet unfolding b
    by (cases "shots b manual_fleet_cells") auto
  from b s c h one all show ?thesis by blast
qed

text \<open>
  On the board the generator filled, which registers every ship with \<open>addShip\<close>, the
  same twenty shots sink the ten ships.
\<close>

lemma generated_fleet_sinks:
  "map_option (\<lambda>b. map_option
       (\<lambda>(res, b'). (res, map (\<lambda>(x, y). get_cell (boardArray b') y x) fleet_cells))
       (shots b fleet_cells)) generated_board
   = Some (Some ([1, 1, 1, 2, 1, 1, 2, 1, 1, 2, 1, 2, 1, 2, 1, 2, 2, 2, 2, 2],
                 replicate 20 (Some (CHR ''s''))))"
  by code_simp

text \<open>
  In a game the player's counter goes down only when \<open>receiveShot\<close> returns 2.  On
  the board filled by hand, with twenty shots per turn: the player fires at (1,0),
  then the AI, on \<open>manual_tape\<close>, hits all twenty cells of the fleet in its turn.
  The counter still stands at ten ships, no winner is declared, and the game goes
  on to the player's next turn.
\<close>

lemma manual_fleet_cannot_lose:
  "map_option (\<lambda>st0. map_option
       (\<lambda>(out, s). (out, playerShipsRemaining s, enemyHits s,
                    map (\<lambda>(x, y). get_cell (boardArray (playerBoard s)) y x) manual_fleet_cells))
       (runGameLoop st0 True 20 [[(1, 0)]] manual_tape)) manual_game
   = Some (Some (PlayerQuit, 10, 20, replicate 20 (Some (CHR ''x''))))"
  by code_simp

subsection \<open>The ship invariant\<close>

lemma list_all_update:
  "list_all P xs \<Longrightarrow> P v \<Longrightarrow> list_all P (xs[i := v])"
  using set_update_subset_insert[of xs i v] by (auto simp: list_all_iff)

lemma findShip_Some:
  "findShip ships symb x y k = Some i \<Longrightarrow>
   k \<le> i \<and> i - k < length ships \<and> \<not> isSunk (ships ! (i - k))"
proof (induction ships arbitrary: k)
  case Nil
  then show ?case by simp
next
  case (Cons s ships)
  show ?case
  proof (cases "\<not> isSunk s \<and> symbol s = symb \<and> isHit s x y")
    case True
    with Cons.prems show ?thesis by simp
  next
    case False
    then have "findShip ships symb x y (Suc k) = Some i"
      using Cons.prems by (auto split: if_splits)
    from Cons.IH[OF this] show ?thesis
      by (auto simp: Suc_diff_le)
  qed
qed

text \<open>What \<open>receiveShot\<close> can do to the ship list: nothing, or one more hit on a ship afloat.\<close>

lemma receiveShot_ships:
  assumes "receiveShot b x y = Some (r, b')"
  shows "myShips b' = myShips b \<or>
         (\<exists>i<length (myShips b). \<not> isSunk (myShips b ! i) \<and>
            myShips b' = (myShips b)[i := (myShips b ! i)
               \<lparr> hitCount := hitCount (myShips b ! i) + 1,
                 isSunk := (hitCount (myShips b ! i) + 1 \<ge> length_ship (myShips b ! i)) \<rparr>])"
proof -
  have hit: "myShips b' = myShips b \<or>
         (\<exists>i<length (myShips b). \<not> isSunk (myShips b ! i) \<and>
            myShips b' = (myShips b)[i := (myShips b ! i)
               \<lparr> hitCount := hitCount (myShips b ! i) + 1,
                 isSunk := (hitCount (myShips b ! i) + 1 \<ge> length_ship (myShips b ! i)) \<rparr>])"
    if fs: "findShip (myShips b) symb x y 0 = Some i" and hs: "hitShip b x y i = Some (r, b')"
    for symb i
  proof -
    from findShip_Some[OF fs] have i: "i < length (myShips b)" "\<not> isSunk (myShips b ! i)"
      by simp_all
    have "myShips b' = (myShips b)[i := (myShips b ! i)
               \<lparr> hitCount := hitCount (myShips b ! i) + 1,
                 isSunk := (hitCount (myShips b ! i) + 1 \<ge> length_ship (myShips b ! i)) \<rparr>]"
      using hs isSunk_False_upd[OF i(2)]
      by (auto simp: hitShip_def Let_def split: option.splits if_splits)
    with i show ?thesis by blast
  qed
  show ?thesis
    using assms hit
    by (auto simp: receiveShot_def split: if_splits option.splits)
qed

lemma receiveShot_ship_inv:
  assumes "receiveShot b x y = Some (r, b')" and "list_all ship_inv (myShips b)"
  shows "list_all ship_inv (myShips b')"
proof -
  from receiveShot_ships[OF assms(1)] show ?thesis
  proof
    assume "myShips b' = myShips b"
    with assms(2) show ?thesis by simp
  next
    assume "\<exists>i<length (myShips b). \<not> isSunk (myShips b ! i) \<and>
            myShips b' = (myShips b)[i := (myShips b ! i)
               \<lparr> hitCount := hitCount (myShips b ! i) + 1,
                 isSunk := (hitCount (myShips b ! i) + 1 \<ge> length_ship (myShips b ! i)) \<rparr>]"
    then obtain i where i: "i < length (myShips b)" "\<not> isSunk (myShips b ! i)"
      and eq: "myShips b' = (myShips b)[i := (myShips b ! i)
               \<lparr> hitCount := hitCount (myShips b ! i) + 1,
                 isSunk := (hitCount (myShips b ! i) + 1 \<ge> length_ship (myShips b ! i)) \<rparr>]"
      by blast
    have old: "ship_inv (myShips b ! i)"
      using assms(2) i(1) by (simp add: list_all_length)
    have new: "ship_inv ((myShips b ! i)
               \<lparr> hitCount := hitCount (myShips b ! i) + 1,
                 isSunk := (hitCount (myShips b ! i) + 1 \<ge> length_ship (myShips b ! i)) \<rparr>)"
      using old i(2) by (auto simp: ship_inv_def)
    show ?thesis
      unfolding eq using assms(2) new by (rule list_all_update)
  qed
qed

lemma receiveShot_hitCount_mono:
  assumes "receiveShot b x y = Some (r, b')"
  shows "length (myShips b') = length (myShips b) \<and>
         (\<forall>i<length (myShips b). hitCount (myShips b ! i) \<le> hitCount (myShips b' ! i))"
  using receiveShot_ships[OF assms]
  by (auto simp: nth_list_update)

lemma addShip_ship_inv:
  assumes "addShip b orient pos len symb = Some b'" and "1 \<le> len"
    and "list_all ship_inv (myShips b)"
  shows "list_all ship_inv (myShips b')"
  using assms
  by (auto simp: addShip_def Let_def ship_inv_def split: if_splits option.splits)

lemma placeShip_ships:
  "placeShip b gx gy orient len symb = Some (ok, b') \<Longrightarrow> myShips b' = myShips b"
  by (auto simp: placeShip_def split: option.splits bool.splits)

lemma board_run_ship_inv:
  "board_run b0 ops = Some b \<Longrightarrow> list_all places_ship ops \<Longrightarrow>
   list_all ship_inv (myShips b0) \<Longrightarrow> list_all ship_inv (myShips b)"
proof (induction ops arbitrary: b0)
  case Nil
  then show ?case by simp
next
  case (Cons p ps)
  from Cons.prems(1) obtain b1 where b1: "board_step b0 p = Some b1" "board_run b1 ps = Some b"
    by (auto split: option.splits)
  have "list_all ship_inv (myShips b1)"
  proof (cases p)
    case (AddShip orient pos len symb)
    with b1(1) Cons.prems(2,3) show ?thesis
      by (auto intro: addShip_ship_inv)
  next
    case (PlaceShip gx gy orient len symb)
    with b1(1) Cons.prems(3) show ?thesis
      by (auto dest: placeShip_ships)
  next
    case (ReceiveShot x y)
    with b1(1) Cons.prems(3) show ?thesis
      by (auto intro: receiveShot_ship_inv)
  qed
  with Cons.IH[OF b1(2)] Cons.prems(2) show ?case by simp
qed

text \<open>
  Claim C3.  On every board reached from an empty board by placing ships
  (\<open>addShip\<close>, \<open>placeShip\<close>) and resolving shots, every ship of the list has
  \<open>0 \<le> hitCount \<le> length\<close> and is marked sunk exactly when \<open>hitCount = length\<close>;
  and \<open>receiveShot\<close> keeps the ship list's length and lowers no ship's \<open>hitCount\<close>.
\<close>

theorem ship_invariant:
  assumes "board_run (BoardData_new n) ops = Some b" and "list_all places_ship ops"
  shows "list_all ship_inv (myShips b) \<and>
         (\<forall>x y r b'. receiveShot b x y = Some (r, b') \<longrightarrow>
            length (myShips b') = length (myShips b) \<and>
            (\<forall>i<length (myShips b). hitCount (myShips b ! i) \<le> hitCount (myShips b' ! i)))"
proof -
  have "list_all ship_inv (myShips (BoardData_new n))"
    by (simp add: BoardData_new_def)
  from board_run_ship_inv[OF assms this] show ?thesis
    using receiveShot_hitCount_mono by blast
qed

theorem ship_invariant_witness:
  "\<exists>b. board_run (BoardData_new 10)
          [AddShip 1 55 3 (CHR ''S''), ReceiveShot 0 0, ReceiveShot 5 5, ReceiveShot 5 5,
           ReceiveShot 5 6, ReceiveShot 5 7] = Some b \<and>
        map hitCount (myShips b) = [3] \<and> map isSunk (myShips b) = [True] \<and>
        list_all ship_inv (myShips b)"
proof -
  have run: "map_option (\<lambda>b. (map hitCount (myShips b), map isSunk (myShips b)))
          (board_run (BoardData_new 10)
          [AddShip 1 55 3 (CHR ''S''), ReceiveShot 0 0, ReceiveShot 5 5, ReceiveShot 5 5,
           ReceiveShot 5 6, ReceiveShot 5 7]) = Some ([3], [True])"
    by code_simp
  then obtain b where b: "board_run (BoardData_new 10)
          [AddShip 1 55 3 (CHR ''S''), ReceiveShot 0 0, ReceiveShot 5 5, ReceiveShot 5 5,
           ReceiveShot 5 6, ReceiveShot 5 7] = Some b"
    "map hitCount (myShips b) = [3]" "map isSunk (myShips b) = [True]"
    by auto
  have "list_all places_ship [AddShip 1 55 3 (CHR ''S''), ReceiveShot 0 0, ReceiveShot 5 5,
           ReceiveShot 5 5, ReceiveShot 5 6, ReceiveShot 5 7]" by simp
  from ship_invariant[OF b(1) this] have "list_all ship_inv (myShips b)" by (rule conjunct1)
  with b show ?thesis by (intro exI[of _ b]) simp
qed

declare placeLoop.simps [simp del]
declare genLoop.simps [simp del]
declare runGameLoop.simps [simp del]

subsection \<open>Placement writes only water cells\<close>

lemma writeCells_spec:
  "writeCells g rcs v = Some g' \<Longrightarrow>
   (wf_grid n g \<longrightarrow> wf_grid n g') \<and>
   (\<forall>r c. get_cell g' r c = (if (r, c) \<in> set rcs then Some v else get_cell g r c))"
proof (induction rcs arbitrary: g)
  case Nil
  then show ?case by simp
next
  case (Cons rc rcs)
  obtain r0 c0 where rc: "rc = (r0, c0)" by (cases rc)
  from Cons.prems rc obtain g1 where g1: "set_cell g r0 c0 v = Some g1"
    and rest: "writeCells g1 rcs v = Some g'"
    by (auto split: option.splits)
  from Cons.IH[OF rest] have ih: "wf_grid n g1 \<longrightarrow> wf_grid n g'"
    "\<forall>r c. get_cell g' r c = (if (r, c) \<in> set rcs then Some v else get_cell g1 r c)"
    by simp_all
  have "wf_grid n g \<longrightarrow> wf_grid n g'"
    using ih(1) set_cell_preserves_wf[OF g1] by blast
  moreover have "\<forall>r c. get_cell g' r c = (if (r, c) \<in> set (rc # rcs) then Some v else get_cell g r c)"
    using ih(2) get_set_cell[OF g1] rc by auto
  ultimately show ?case by blast
qed

lemma validLeft_True:
  "validLeft b gx gy js = Some True \<Longrightarrow>
   \<forall>i\<in>set js. get_cell (boardArray b) gy (gx - i) = Some (CHR ''w'')"
  by (induction js) (auto simp: Let_def split: if_splits option.splits)

lemma validUp_True:
  "validUp b gx gy js = Some True \<Longrightarrow>
   \<forall>i\<in>set js. get_cell (boardArray b) (gy - i) gx = Some (CHR ''w'')"
  by (induction js) (auto simp: Let_def split: if_splits option.splits)

lemma checkPegDown_1:
  "checkPegDown b peg js = Some 1 \<Longrightarrow>
   \<forall>j\<in>set js. get_cell (boardArray b) ((peg sdiv boardSize b) + j) (peg smod boardSize b)
                  = Some (CHR ''w'')"
  by (induction js) (auto split: if_splits option.splits)

lemma checkPegLeft_1:
  "checkPegLeft b peg js = Some 1 \<Longrightarrow>
   \<forall>j\<in>set js. get_cell (boardArray b) (peg sdiv boardSize b) ((peg smod boardSize b) - j)
                  = Some (CHR ''w'')"
  by (induction js) (auto split: if_splits option.splits)

lemma placeLoop_Placed:
  "placeLoop b rs k orient peg len attempts = Some (Placed orient' peg' k') \<Longrightarrow>
   checkStartingPeg b orient' peg' len = Some 1"
proof (induction b rs k orient peg len attempts rule: placeLoop.induct)
  case (1 b rs k orient peg len attempts)
  from "1.prems" obtain ret where ret: "checkStartingPeg b orient peg len = Some ret"
    by (subst (asm) placeLoop.simps) (auto split: option.splits)
  show ?case
  proof (cases "ret = 1")
    case True
    with "1.prems" ret show ?thesis
      by (subst (asm) placeLoop.simps) auto
  next
    case False
    from "1.prems" ret False obtain ret2 where
      ret2: "(if ret = 2 then checkStartingPeg b (if orient = 1 then 2 else 1) peg len
              else Some ret) = Some ret2"
      by (subst (asm) placeLoop.simps) (auto split: option.splits)
    show ?thesis
    proof (cases "ret = 2 \<and> ret2 = 1")
      case True
      with "1.prems" ret False ret2 show ?thesis
        by (subst (asm) placeLoop.simps) (auto split: if_splits)
    next
      case nf: False
      from "1.prems" ret False ret2 nf have
        c: "boardSize b * boardSize b \<noteq> 0" "\<not> attempts + 1 > 1000"
        and rec: "placeLoop b rs (k + 2) (int (rs (k + 1)) mod 2 + 1)
                    (int (rs k) mod (boardSize b * boardSize b)) len (attempts + 1)
                  = Some (Placed orient' peg' k')"
        by (subst (asm) placeLoop.simps, auto split: if_splits)+
      from "1.IH"[OF ret False ret2 nf c rec] show ?thesis .
    qed
  qed
qed

lemma distinct_offsets:
  "distinct (map (\<lambda>i. (a + i, c::int)) [0..m])" "distinct (map (\<lambda>i. (c, a + i)) [0..m])"
  "distinct (map (\<lambda>i. (a - i, c)) [0..m])" "distinct (map (\<lambda>i. (c, a - i)) [0..m])"
  by (auto simp: distinct_map inj_on_def)

text \<open>Adding to the fleet a list of water cells that are then overwritten by a letter.\<close>

lemma occupied_iff:
  "occupied b (x, y) = (\<exists>c. get_cell (boardArray b) y x = Some c \<and> c \<noteq> CHR ''w'')"
  by (auto simp: occupied_def split: option.splits)

lemma fleet_inv_extend:
  assumes inv: "fleet_inv b fl"
    and water: "\<forall>(x, y)\<in>set cells. get_cell (boardArray b) y x = Some (CHR ''w'')"
    and dist: "distinct cells"
    and wf': "wf_board b'"
    and written: "\<forall>r c. get_cell (boardArray b') r c =
                   (if (c, r) \<in> set cells then Some symb else get_cell (boardArray b) r c)"
    and symb: "symb \<noteq> CHR ''w''"
  shows "fleet_inv b' (fl @ [cells])"
proof -
  have old: "\<forall>p\<in>set (concat fl). occupied b p"
    using inv by (simp add: fleet_inv_def list_all_iff)
  have dry: "\<forall>p\<in>set cells. \<not> occupied b p"
    using water by (auto simp: occupied_iff)
  have disj: "set (concat fl) \<inter> set cells = {}"
    using old dry by blast
  have d: "distinct (concat (fl @ [cells]))"
    using inv dist disj by (simp add: fleet_inv_def)
  have keep: "occupied b' p" if "occupied b p" for p
  proof -
    obtain x y where "p = (x, y)" by (cases p)
    with that written symb show ?thesis by (auto simp: occupied_iff)
  qed
  have fresh: "occupied b' p" if "p \<in> set cells" for p
  proof -
    obtain x y where "p = (x, y)" by (cases p)
    with that written symb show ?thesis by (auto simp: occupied_iff)
  qed
  have new: "\<forall>p\<in>set (concat (fl @ [cells])). occupied b' p"
    using old keep fresh by auto
  show ?thesis
    unfolding fleet_inv_def using wf' d new by (simp add: list_all_iff)
qed

lemma fleet_inv_keep:
  assumes inv: "fleet_inv b fl" and wf': "wf_board b'"
    and kept: "\<forall>r c v. get_cell (boardArray b) r c = Some v \<longrightarrow> v \<noteq> CHR ''w'' \<longrightarrow>
                 (\<exists>v'. get_cell (boardArray b') r c = Some v' \<and> v' \<noteq> CHR ''w'')"
  shows "fleet_inv b' fl"
proof -
  have "occupied b' p" if "occupied b p" for p
  proof -
    obtain x y where "p = (x, y)" by (cases p)
    with that kept show ?thesis by (auto simp: occupied_iff)
  qed
  with inv wf' show ?thesis
    by (auto simp: fleet_inv_def list_all_iff)
qed


subsection \<open>Each operation keeps the fleet invariant\<close>

lemma clear_row_wf:
  "clear_row g i js = Some g' \<Longrightarrow> wf_grid n g \<Longrightarrow> wf_grid n g'"
  by (induction js arbitrary: g) (auto split: option.splits dest: set_cell_preserves_wf)

lemma clear_rows_wf:
  "clear_rows g m is = Some g' \<Longrightarrow> wf_grid n g \<Longrightarrow> wf_grid n g'"
  by (induction "is" arbitrary: g) (auto split: option.splits dest: clear_row_wf)

lemma clear_fleet_inv:
  "clear b = Some b' \<Longrightarrow> wf_board b \<Longrightarrow> fleet_inv b' (map ship_cells_xy (myShips b'))"
  by (auto simp: clear_def fleet_inv_def wf_board_def split: option.splits dest: clear_rows_wf)

lemma receiveShot_cells:
  assumes "receiveShot b x y = Some (r, b')" and wf: "wf_board b"
  shows "wf_board b' \<and>
         (\<forall>r c v. get_cell (boardArray b) r c = Some v \<longrightarrow> v \<noteq> CHR ''w'' \<longrightarrow>
            (\<exists>v'. get_cell (boardArray b') r c = Some v' \<and> v' \<noteq> CHR ''w''))"
proof -
  have wfg: "wf_grid (boardSize b) (boardArray b)" using wf by (simp add: wf_board_def)
  have setc: "wf_board (b1\<lparr> boardArray := g \<rparr>) \<and>
         (\<forall>r c v. get_cell (boardArray b) r c = Some v \<longrightarrow> v \<noteq> CHR ''w'' \<longrightarrow>
            (\<exists>v'. get_cell (boardArray (b1\<lparr> boardArray := g \<rparr>)) r c = Some v' \<and> v' \<noteq> CHR ''w''))"
    if "set_cell (boardArray b) y x m = Some g" "m \<noteq> CHR ''w''" "boardSize b1 = boardSize b"
    for g m b1
    using that set_cell_preserves_wf[OF that(1) wfg] get_set_cell[OF that(1)]
    by (auto simp: wf_board_def)
  have sink: "wf_board (b1\<lparr> boardArray := g \<rparr>) \<and>
         (\<forall>r c v. get_cell (boardArray b) r c = Some v \<longrightarrow> v \<noteq> CHR ''w'' \<longrightarrow>
            (\<exists>v'. get_cell (boardArray (b1\<lparr> boardArray := g \<rparr>)) r c = Some v' \<and> v' \<noteq> CHR ''w''))"
    if "markSunk (boardSize b) ship (boardArray b) js = Some g" "boardSize b1 = boardSize b"
    for g ship js b1
    using that markSunk_cells[OF wfg, of ship js]
    by (auto simp: wf_board_def)
  show ?thesis
    using assms(1)
    apply (simp add: receiveShot_def hitShip_def Let_def split: if_splits option.splits)
    using setc sink wf
    apply (auto simp: wf_board_def)
    done
qed

lemma addShip_fleet_inv:
  assumes inv: "fleet_inv b (map ship_cells_xy (myShips b))"
    and chk: "checkStartingPeg b orient peg len = Some 1"
    and add: "addShip b orient peg len symb = Some b'"
    and symb: "symb \<noteq> CHR ''w''"
  shows "fleet_inv b' (map ship_cells_xy (myShips b'))"
proof -
  define row where "row = peg sdiv boardSize b"
  define col where "col = peg smod boardSize b"
  define newShip where
    "newShip = \<lparr> id_ship = int (length (myShips b)), symbol = symb, length_ship = len,
                 hitCount = 0, isSunk = False, startRow = row, startCol = col,
                 orientation = orient \<rparr>"
  define rcs where
    "rcs = (if orient = 1 then map (\<lambda>j. (row + j, col)) [0..len - 1]
            else map (\<lambda>j. (row, col - j)) [0..len - 1])"
  from add obtain g where g: "writeCells (boardArray b) rcs symb = Some g"
    and b': "b' = b\<lparr> myShips := myShips b @ [newShip],
                     shipStatus := (shipStatus b)(symb \<mapsto> newShip), boardArray := g \<rparr>"
    by (auto simp: addShip_def Let_def row_def col_def newShip_def rcs_def
             split: if_splits option.splits)
  have wfb: "wf_grid (boardSize b) (boardArray b)"
    using inv by (simp add: fleet_inv_def wf_board_def)
  from writeCells_spec[OF g, of "boardSize b"] wfb
  have wfg: "wf_grid (boardSize b) g"
    and cells: "\<forall>r c. get_cell g r c = (if (r, c) \<in> set rcs then Some symb
                                          else get_cell (boardArray b) r c)"
    by simp_all
  have xy: "ship_cells_xy newShip =
        (if orient = 1 then map (\<lambda>j. (col, row + j)) [0..len - 1]
         else map (\<lambda>j. (col - j, row)) [0..len - 1])"
    by (simp add: ship_cells_xy_def ship_cell_rc_def newShip_def)
  have swap: "((c, r) \<in> set (ship_cells_xy newShip)) = ((r, c) \<in> set rcs)" for r c
    by (auto simp: xy rcs_def)
  have water: "\<forall>(x, y)\<in>set (ship_cells_xy newShip).
                 get_cell (boardArray b) y x = Some (CHR ''w'')"
  proof (cases "orient = 1")
    case True
    with chk have "checkPegDown b peg [0..len - 1] = Some 1"
      by (simp add: checkStartingPeg_def)
    from checkPegDown_1[OF this] True show ?thesis
      by (auto simp: xy row_def col_def)
  next
    case False
    with chk have "checkPegLeft b peg [0..len - 1] = Some 1"
      by (simp add: checkStartingPeg_def)
    from checkPegLeft_1[OF this] False show ?thesis
      by (auto simp: xy row_def col_def)
  qed
  have dist: "distinct (ship_cells_xy newShip)"
    using distinct_offsets[where a = row and c = col and m = "len - 1"]
      distinct_offsets[where a = col and c = row and m = "len - 1"]
    by (simp add: xy)
  have wf': "wf_board b'"
    using wfg by (simp add: b' wf_board_def)
  have written: "\<forall>r c. get_cell (boardArray b') r c =
                   (if (c, r) \<in> set (ship_cells_xy newShip) then Some symb
                    else get_cell (boardArray b) r c)"
    using cells swap by (simp add: b')
  from fleet_inv_extend[OF inv water dist wf' written symb]
  show ?thesis by (simp add: b')
qed

lemma placeShip_fleet_inv:
  assumes inv: "fleet_inv b fl"
    and place: "placeShip b gx gy orient len symb = Some (ok, b')"
    and symb: "symb \<noteq> CHR ''w''"
  shows "fleet_inv b' (if ok then fl @ [manual_cells gx gy orient len] else fl)"
proof (cases ok)
  case False
  with place have "b' = b"
    by (auto simp: placeShip_def split: option.splits bool.splits)
  with inv False show ?thesis by simp
next
  case True
  define rcs where
    "rcs = (if orient = 0 then map (\<lambda>i. (gy, gx - i)) [0..len - 1]
            else map (\<lambda>i. (gy - i, gx)) [0..len - 1])"
  from place True obtain g where
    valid: "isValidShipPlacement b gx gy orient len = Some True"
    and g: "writeCells (boardArray b) rcs symb = Some g"
    and b': "b' = b\<lparr> boardArray := g \<rparr>"
    by (auto simp: placeShip_def rcs_def split: option.splits bool.splits)
  have wfb: "wf_grid (boardSize b) (boardArray b)"
    using inv by (simp add: fleet_inv_def wf_board_def)
  from writeCells_spec[OF g, of "boardSize b"] wfb
  have wfg: "wf_grid (boardSize b) g"
    and cells: "\<forall>r c. get_cell g r c = (if (r, c) \<in> set rcs then Some symb
                                          else get_cell (boardArray b) r c)"
    by simp_all
  have swap: "((c, r) \<in> set (manual_cells gx gy orient len)) = ((r, c) \<in> set rcs)" for r c
    by (auto simp: manual_cells_def rcs_def)
  have water: "\<forall>(x, y)\<in>set (manual_cells gx gy orient len).
                 get_cell (boardArray b) y x = Some (CHR ''w'')"
  proof (cases "orient = 0")
    case True
    with valid have "validLeft b gx gy [0..len - 1] = Some True"
      by (simp add: isValidShipPlacement_def)
    from validLeft_True[OF this] True show ?thesis
      by (auto simp: manual_cells_def)
  next
    case False
    with valid have "validUp b gx gy [0..len - 1] = Some True"
      by (simp add: isValidShipPlacement_def)
    from validUp_True[OF this] False show ?thesis
      by (auto simp: manual_cells_def)
  qed
  have dist: "distinct (manual_cells gx gy orient len)"
    using distinct_offsets[where a = gx and c = gy and m = "len - 1"]
      distinct_offsets[where a = gy and c = gx and m = "len - 1"]
    by (simp add: manual_cells_def)
  have wf': "wf_board b'"
    using wfg by (simp add: b' wf_board_def)
  have written: "\<forall>r c. get_cell (boardArray b') r c =
                   (if (c, r) \<in> set (manual_cells gx gy orient len) then Some symb
                    else get_cell (boardArray b) r c)"
    using cells swap by (simp add: b')
  from fleet_inv_extend[OF inv water dist wf' written symb] True
  show ?thesis by simp
qed

lemma genLoop_fleet_inv:
  "genLoop fuel b pieces i rs k = Some (b', k') \<Longrightarrow>
   fleet_inv b (map ship_cells_xy (myShips b)) \<Longrightarrow>
   list_all (\<lambda>p. is_ship_char (piece_symbol p)) pieces \<Longrightarrow>
   fleet_inv b' (map ship_cells_xy (myShips b'))"
proof (induction fuel arbitrary: b i k)
  case 0
  then show ?case
    by (subst (asm) genLoop.simps) (auto split: if_splits)
next
  case (Suc fuel)
  show ?case
  proof (cases "i \<ge> length pieces")
    case True
    with Suc.prems show ?thesis
      by (subst (asm) genLoop.simps) auto
  next
    case False
    have letter: "piece_symbol (pieces ! i) \<noteq> CHR ''w''"
      using Suc.prems(3) False is_ship_char_not_mark[of "piece_symbol (pieces ! i)"]
      by (auto simp: list_all_length)
    from Suc.prems(1) False obtain pl where
      pl: "placeLoop b rs (k + 2) (int (rs (k + 1)) mod 2 + 1)
             (int (rs k) mod (boardSize b * boardSize b)) (piece_length (pieces ! i)) 0
           = Some pl"
      by (subst (asm) genLoop.simps) (auto split: if_splits option.splits)
    show ?thesis
    proof (cases pl)
      case (Restart k1)
      with Suc.prems(1) False pl obtain b1 where
        b1: "clear b = Some b1" and rec: "genLoop fuel b1 pieces 0 rs k1 = Some (b', k')"
        by (subst (asm) genLoop.simps) (auto split: if_splits option.splits)
      have "wf_board b" using Suc.prems(2) by (simp add: fleet_inv_def)
      from Suc.IH[OF rec clear_fleet_inv[OF b1 this] Suc.prems(3)] show ?thesis .
    next
      case (Placed orient peg k1)
      with Suc.prems(1) False pl obtain b1 where
        b1: "addShip b orient peg (piece_length (pieces ! i)) (piece_symbol (pieces ! i)) = Some b1"
        and rec: "genLoop fuel b1 pieces (Suc i) rs k1 = Some (b', k')"
        by (subst (asm) genLoop.simps) (auto split: if_splits option.splits)
      have chk: "checkStartingPeg b orient peg (piece_length (pieces ! i)) = Some 1"
        using placeLoop_Placed pl Placed by blast
      from Suc.IH[OF rec addShip_fleet_inv[OF Suc.prems(2) chk b1 letter] Suc.prems(3)]
      show ?thesis .
    qed
  qed
qed

lemma fleet_step_inv:
  assumes "fleet_step (b, fl) p = Some (b', fl')" and "fleet_inv b fl" and "letters_only p"
  shows "fleet_inv b' fl'"
proof (cases p)
  case (Manual gx gy orient len symb)
  with assms(1) obtain ok where
    pl: "placeShip b gx gy orient len symb = Some (ok, b')"
    and fl': "fl' = (if ok then fl @ [manual_cells gx gy orient len] else fl)"
    by (auto split: option.splits)
  have "symb \<noteq> CHR ''w''"
    using assms(3) Manual is_ship_char_not_mark[of symb] by simp
  from placeShip_fleet_inv[OF assms(2) pl this] fl' show ?thesis by simp
next
  case (Random fuel pieces rs)
  with assms(1) obtain b0 k where b0: "clear b = Some b0"
    and gen: "genLoop fuel b0 pieces 0 rs 0 = Some (b', k)"
    and fl': "fl' = map ship_cells_xy (myShips b')"
    by (auto simp: generateBoardPlacement_def split: option.splits)
  have "wf_board b" using assms(2) by (simp add: fleet_inv_def)
  from genLoop_fleet_inv[OF gen clear_fleet_inv[OF b0 this]] assms(3) Random fl'
  show ?thesis by simp
next
  case (Fire x y)
  with assms(1) obtain r where sh: "receiveShot b x y = Some (r, b')" and fl': "fl' = fl"
    by (auto split: option.splits)
  have "wf_board b" using assms(2) by (simp add: fleet_inv_def)
  from receiveShot_cells[OF sh this] fleet_inv_keep[OF assms(2)] fl'
  show ?thesis by blast
qed

lemma fleet_run_inv:
  "fleet_run s ops = Some s' \<Longrightarrow> fleet_inv (fst s) (snd s) \<Longrightarrow> list_all letters_only ops
   \<Longrightarrow> fleet_inv (fst s') (snd s')"
proof (induction ops arbitrary: s)
  case Nil
  then show ?case by simp
next
  case (Cons p ps)
  from Cons.prems(1) obtain s1 where s1: "fleet_step s p = Some s1" "fleet_run s1 ps = Some s'"
    by (auto split: option.splits)
  have "fleet_inv (fst s1) (snd s1)"
    using fleet_step_inv[of "fst s" "snd s" p "fst s1" "snd s1"] s1(1) Cons.prems(2,3)
    by simp
  from Cons.IH[OF s1(2) this] Cons.prems(3) show ?case by simp
qed

text \<open>
  Claim C9.  After any sequence of operations on an initially empty board, made of
  successful manual placements (\<open>placeShip\<close>), random placements
  (\<open>generateBoardPlacement\<close> on the cleared board) and shots, the cell lists of
  the ships are pairwise disjoint (no cell occurs twice in the fleet), and every
  cell of the fleet is a cell of the board that holds no water.  Ship symbols are
  capital letters.
\<close>

theorem ships_never_overlap:
  assumes "fleet_run (BoardData_new n, []) ops = Some (b, fl)"
    and "0 \<le> n" and "list_all letters_only ops"
  shows "distinct (concat fl) \<and> list_all (occupied b) (concat fl)"
proof -
  have "fleet_inv (BoardData_new n) []"
    using assms(2)
    by (simp add: fleet_inv_def wf_board_def wf_grid_def BoardData_new_def water_grid_def
                  list_all_iff)
  from fleet_run_inv[OF assms(1)] this assms(3) show ?thesis
    by (simp add: fleet_inv_def)
qed

lemma demo_run:
  "map_option snd (fleet_run (BoardData_new 10, []) demo_ops) = Some
     [[(0, 0), (0, 1), (0, 2), (0, 3)], [(2, 0), (2, 1), (2, 2)], [(4, 0), (4, 1), (4, 2)],
      [(6, 0), (6, 1)], [(8, 0), (8, 1)], [(0, 5), (0, 6)], [(2, 5)], [(4, 5)], [(6, 5)],
      [(8, 5)]]"
  by code_simp

lemma demo_letters: "list_all letters_only demo_ops"
  by code_simp

theorem ships_never_overlap_witness:
  "\<exists>b fl. fleet_run (BoardData_new 10, []) demo_ops = Some (b, fl) \<and>
     fl = [[(0, 0), (0, 1), (0, 2), (0, 3)], [(2, 0), (2, 1), (2, 2)], [(4, 0), (4, 1), (4, 2)],
           [(6, 0), (6, 1)], [(8, 0), (8, 1)], [(0, 5), (0, 6)], [(2, 5)], [(4, 5)], [(6, 5)],
           [(8, 5)]] \<and>
     distinct (concat fl) \<and> list_all (occupied b) (concat fl)"
proof -
  from demo_run obtain b fl where
    run: "fleet_run (BoardData_new 10, []) demo_ops = Some (b, fl)"
    and fl: "fl = [[(0, 0), (0, 1), (0, 2), (0, 3)], [(2, 0), (2, 1), (2, 2)],
           [(4, 0), (4, 1), (4, 2)], [(6, 0), (6, 1)], [(8, 0), (8, 1)], [(0, 5), (0, 6)],
           [(2, 5)], [(4, 5)], [(6, 5)], [(8, 5)]]"
    by auto
  have "(0::int) \<le> 10" by simp
  from ships_never_overlap[OF run this demo_letters] run fl show ?thesis
    by (intro exI[of _ b] exI[of _ fl]) simp
qed

subsection \<open>Validity of a manual placement\<close>

text \<open>
  Where the anchor's fixed coordinate lies inside a well-formed board, the check is
  exactly "every cell of the ship is inside the board and holds water".
\<close>

lemma validLeft_in_range:
  "wf_board b \<Longrightarrow> 0 \<le> gy \<Longrightarrow> gy < boardSize b \<Longrightarrow>
   validLeft b gx gy js =
     Some (\<forall>i\<in>set js. 0 \<le> gx - i \<and> gx - i < boardSize b \<and>
                       get_cell (boardArray b) gy (gx - i) = Some (CHR ''w''))"
proof (induction js)
  case Nil
  then show ?case by simp
next
  case (Cons j js)
  show ?case
  proof (cases "0 \<le> gx - j \<and> gx - j < boardSize b")
    case True
    with Cons.prems have "get_cell (boardArray b) gy (gx - j)
                          = Some (boardArray b ! nat gy ! nat (gx - j))"
      by (intro get_cell_wf[of "boardSize b"]) (auto simp: wf_board_def)
    with True Cons show ?thesis by (auto simp: Let_def)
  next
    case False
    then show ?thesis by (auto simp: Let_def)
  qed
qed

lemma validUp_in_range:
  "wf_board b \<Longrightarrow> 0 \<le> gx \<Longrightarrow> gx < boardSize b \<Longrightarrow>
   validUp b gx gy js =
     Some (\<forall>i\<in>set js. 0 \<le> gy - i \<and> gy - i < boardSize b \<and>
                       get_cell (boardArray b) (gy - i) gx = Some (CHR ''w''))"
proof (induction js)
  case Nil
  then show ?case by simp
next
  case (Cons j js)
  show ?case
  proof (cases "0 \<le> gy - j \<and> gy - j < boardSize b")
    case True
    with Cons.prems have "get_cell (boardArray b) (gy - j) gx
                          = Some (boardArray b ! nat (gy - j) ! nat gx)"
      by (intro get_cell_wf[of "boardSize b"]) (auto simp: wf_board_def)
    with True Cons show ?thesis by (auto simp: Let_def)
  next
    case False
    then show ?thesis by (auto simp: Let_def)
  qed
qed

lemma isValidShipPlacement_in_range:
  assumes "wf_board b"
    and "if orient = 0 then 0 \<le> gy \<and> gy < boardSize b else 0 \<le> gx \<and> gx < boardSize b"
  shows "isValidShipPlacement b gx gy orient len =
     Some (\<forall>(x, y)\<in>set (manual_cells gx gy orient len).
             0 \<le> x \<and> x < boardSize b \<and> 0 \<le> y \<and> y < boardSize b \<and>
             get_cell (boardArray b) y x = Some (CHR ''w''))"
proof (cases "orient = 0")
  case True
  with assms have "0 \<le> gy" "gy < boardSize b" by simp_all
  from validLeft_in_range[OF assms(1) this] True this show ?thesis
    by (auto simp: isValidShipPlacement_def manual_cells_def)
next
  case False
  with assms have "0 \<le> gx" "gx < boardSize b" by simp_all
  from validUp_in_range[OF assms(1) this] False this show ?thesis
    by (auto simp: isValidShipPlacement_def manual_cells_def)
qed

text \<open>
  Claim C8.  The claim asks the check to answer false for every request with a cell
  outside the board.  The source compares only the coordinate that varies along the
  ship with the board size: for a horizontal request whose row is outside the board
  (here row 10 of a 10 by 10 board) it indexes \<open>boardArray[gridY]\<close> out of range
  before any answer is given, and so does \<open>placeShip\<close>, which calls it first.
\<close>

theorem isValidShipPlacement_row_outside:
  "isValidShipPlacement (BoardData_new 10) 5 10 0 3 = None \<and>
   placeShip (BoardData_new 10) 5 10 0 3 (CHR ''A'') = None \<and>
   isValidShipPlacement (BoardData_new 10) 10 5 1 3 = None"
  by (simp add: placeShip_def isValidShipPlacement_def BoardData_new_def water_grid_def
                get_cell_def Let_def upto.simps)

section \<open>Properties of the AI\<close>

subsection \<open>The pools of a new AI\<close>

lemma genRow_eq:
  "genRow i js (avail, parity) =
     (avail @ map (\<lambda>j. (j, i)) js, parity @ filter on_parity (map (\<lambda>j. (j, i)) js))"
  by (induction js arbitrary: avail parity) (auto simp: on_parity_def)

lemma genRows_eq:
  "genRows n is (avail, parity) =
     (avail @ concat (map (\<lambda>i. map (\<lambda>j. (j, i)) [0..n - 1]) is),
      parity @ filter on_parity (concat (map (\<lambda>i. map (\<lambda>j. (j, i)) [0..n - 1]) is)))"
  by (induction "is" arbitrary: avail parity) (auto simp: genRow_eq)

lemma random_shuffle_loop_mset:
  "\<forall>i\<in>set is. i < length xs \<Longrightarrow> mset (fst (random_shuffle_loop xs is rs k)) = mset xs"
proof (induction "is" arbitrary: xs k)
  case Nil
  then show ?case by simp
next
  case (Cons i "is")
  define j where "j = rs k mod (i + 1)"
  define ys where "ys = (if i \<noteq> j then xs[i := xs ! j, j := xs ! i] else xs)"
  have i: "i < length xs" using Cons.prems by simp
  have j: "j < length xs" using i by (simp add: j_def) (meson less_Suc_eq_le less_le_trans mod_less_divisor not_less zero_less_Suc)
  have len: "length ys = length xs" by (simp add: ys_def)
  have ms: "mset ys = mset xs"
    using mset_swap[OF j i] by (simp add: ys_def)
  have step: "random_shuffle_loop xs (i # is) rs k = random_shuffle_loop ys is rs (Suc k)"
    by (simp add: Let_def ys_def j_def)
  have "mset (fst (random_shuffle_loop ys is rs (Suc k))) = mset ys"
    using Cons.prems len by (intro Cons.IH) simp
  with ms show ?case
    unfolding step by simp
qed

lemma random_shuffle_mset: "mset (fst (random_shuffle xs rs k)) = mset xs"
  by (simp add: random_shuffle_def random_shuffle_loop_mset)

lemma all_cells_set:
  "set (all_cells n) = {(x, y). 0 \<le> x \<and> x < n \<and> 0 \<le> y \<and> y < n}"
  by (auto simp: all_cells_def)

lemma all_cells_distinct: "distinct (all_cells n)"
  unfolding all_cells_def
  by (rule distinct_concat) (auto simp: distinct_map inj_on_def)

lemma setupBoard_fields:
  "setupBoard a fuel rs = Some a' \<Longrightarrow>
   availableShots a' = availableShots a \<and> parityShots a' = parityShots a \<and>
   targetQueue a' = targetQueue a \<and> difficulty a' = difficulty a \<and>
   boardSizeAI a' = boardSizeAI a \<and> opponentBoard a' = opponentBoard a"
  by (auto simp: setupBoard_def Let_def split: prod.splits option.splits)

lemma AILogic_new_fields:
  assumes "AILogic_new d n seed rsS fuel rsP = Some a"
  shows "mset (availableShots a) = mset (all_cells n)"
    and "mset (parityShots a) = mset (filter on_parity (all_cells n))"
    and "targetQueue a = []" and "difficulty a = d" and "boardSizeAI a = n"
    and "opponentBoard a = replicate (nat n) (replicate (nat n) (CHR ''?''))"
proof -
  define a0 where "a0 = \<lparr> difficulty = d, aiBoard = BoardData_new n,
            opponentBoard = replicate (nat n) (replicate (nat n) (CHR ''?'')),
            lastHit = (-1, -1), hunting = False, huntDirection = 0,
            availableShots = [], targetQueue = [], parityShots = [],
            attackSeed = seed, boardSizeAI = n \<rparr>"
  define a1 where "a1 = initializeAvailableShots a0 rsS"
  have sb: "setupBoard a1 fuel rsP = Some a"
    using assms by (simp add: AILogic_new_def a1_def a0_def)
  have gen: "genRows n [0..n - 1] ([], []) = (all_cells n, filter on_parity (all_cells n))"
    by (simp add: genRows_eq all_cells_def)
  obtain av k1 where av: "random_shuffle (all_cells n) rsS 0 = (av, k1)"
    by (cases "random_shuffle (all_cells n) rsS 0")
  obtain pa k2 where pa: "random_shuffle (filter on_parity (all_cells n)) rsS k1 = (pa, k2)"
    by (cases "random_shuffle (filter on_parity (all_cells n)) rsS k1")
  have mav: "mset av = mset (all_cells n)"
    using random_shuffle_mset[of "all_cells n" rsS 0] av by simp
  have mpa: "mset pa = mset (filter on_parity (all_cells n))"
    using random_shuffle_mset[of "filter on_parity (all_cells n)" rsS k1] pa by simp
  have a1eq: "a1 = a0\<lparr> availableShots := av, parityShots := pa \<rparr>"
    by (simp add: a1_def initializeAvailableShots_def gen av pa a0_def)
  have a1: "mset (availableShots a1) = mset (all_cells n)"
    "mset (parityShots a1) = mset (filter on_parity (all_cells n))"
    "targetQueue a1 = []" "difficulty a1 = d" "boardSizeAI a1 = n"
    "opponentBoard a1 = replicate (nat n) (replicate (nat n) (CHR ''?''))"
    using mav mpa by (simp_all add: a1eq a0_def)
  from setupBoard_fields[OF sb] a1
  show "mset (availableShots a) = mset (all_cells n)"
    and "mset (parityShots a) = mset (filter on_parity (all_cells n))"
    and "targetQueue a = []" and "difficulty a = d" and "boardSizeAI a = n"
    and "opponentBoard a = replicate (nat n) (replicate (nat n) (CHR ''?''))"
    by simp_all
qed

lemma AILogic_new_pools:
  assumes "AILogic_new d n seed rsS fuel rsP = Some a"
  shows "pool_inv a" and "set (availableShots a) = set (all_cells n)"
proof -
  note f = AILogic_new_fields[OF assms]
  have da: "distinct (availableShots a)"
    using f(1) all_cells_distinct[of n] by (metis mset_eq_imp_distinct_iff)
  have dp: "distinct (parityShots a)"
    using f(2) all_cells_distinct[of n] by (metis distinct_filter mset_eq_imp_distinct_iff)
  show sa: "set (availableShots a) = set (all_cells n)"
    using f(1) by (rule mset_eq_setD)
  have "set (parityShots a) = set (filter on_parity (all_cells n))"
    using f(2) by (rule mset_eq_setD)
  then have "set (parityShots a) \<subseteq> set (availableShots a)"
    using sa by auto
  with da dp show "pool_inv a"
    by (auto simp: pool_inv_def list_all_iff)
qed

subsection \<open>Searching and erasing\<close>

lemma findCoord_None: "(findCoord xs c k = None) = (c \<notin> set xs)"
  by (induction xs arbitrary: k) (auto simp: prod_eq_iff)

lemma findCoord_Some:
  "findCoord xs c k = Some i \<Longrightarrow>
   k \<le> i \<and> i - k < length xs \<and> take (i - k) xs @ c # drop (Suc (i - k)) xs = xs \<and>
   c \<notin> set (take (i - k) xs)"
proof (induction xs arbitrary: k)
  case Nil
  then show ?case by simp
next
  case (Cons a xs)
  show ?case
  proof (cases "a = c")
    case True
    with Cons.prems show ?thesis by simp
  next
    case False
    then have "findCoord xs c (Suc k) = Some i"
      using Cons.prems by (auto simp: prod_eq_iff split: if_splits)
    from Cons.IH[OF this] have ih: "Suc k \<le> i" "i - Suc k < length xs"
      "take (i - Suc k) xs @ c # drop (Suc (i - Suc k)) xs = xs"
      "c \<notin> set (take (i - Suc k) xs)" by simp_all
    have m: "i - k = Suc (i - Suc k)" using ih(1) by arith
    show ?thesis
      unfolding m using ih False by auto
  qed
qed

lemma remove1_split_first:
  "c \<notin> set ys \<Longrightarrow> remove1 c (ys @ c # zs) = ys @ zs"
  by (induction ys) auto

lemma erase_at_found:
  assumes "findCoord xs c 0 = Some i"
  shows "erase_at xs i = remove1 c xs" and "c \<in> set xs"
proof -
  from findCoord_Some[OF assms] have
    split: "take i xs @ c # drop (Suc i) xs = xs" and first: "c \<notin> set (take i xs)"
    by simp_all
  have "remove1 c xs = remove1 c (take i xs @ c # drop (Suc i) xs)"
    using split by simp
  also have "\<dots> = take i xs @ drop (Suc i) xs"
    using first by (rule remove1_split_first)
  finally show "erase_at xs i = remove1 c xs" by (simp add: erase_at_def)
  show "c \<in> set xs" using split by (metis in_set_conv_decomp)
qed

lemma erase_coord_remove1: "erase_coord xs c = remove1 c xs"
proof (cases "findCoord xs c 0")
  case None
  then have "c \<notin> set xs" by (simp add: findCoord_None)
  then show ?thesis using None by (simp add: erase_coord_def remove1_idem)
next
  case (Some i)
  from erase_at_found(1)[OF this] Some show ?thesis by (simp add: erase_coord_def)
qed

lemma erase_at_distinct:
  assumes "distinct xs" and "i < length xs"
  shows "erase_at xs i = remove1 (xs ! i) xs"
proof -
  have split: "xs = take i xs @ (xs ! i) # drop (Suc i) xs"
    using assms(2) by (simp add: id_take_nth_drop)
  have "xs ! i \<notin> set (take i xs)"
    using assms by (metis split distinct_append distinct.simps(2) disjoint_iff list.set_intros(1))
  then have "remove1 (xs ! i) (take i xs @ (xs ! i) # drop (Suc i) xs) = take i xs @ drop (Suc i) xs"
    by (rule remove1_split_first)
  with split show ?thesis by (simp add: erase_at_def)
qed

lemma butlast_remove1_last:
  "distinct xs \<Longrightarrow> xs \<noteq> [] \<Longrightarrow> butlast xs = remove1 (last xs) xs"
  by (induction xs) (auto simp: remove1_idem)

text \<open>The queue loop returns the first entry that is still available.\<close>

lemma queueLoop_dropWhile:
  "queueLoop queue avail =
     (case dropWhile (\<lambda>q. q \<notin> set avail) queue of
        [] \<Rightarrow> ([], None)
      | q # rest \<Rightarrow> (rest, Some (q, the (findCoord avail q 0))))"
proof (induction queue)
  case Nil
  then show ?case by simp
next
  case (Cons q queue)
  show ?case
  proof (cases "findCoord avail q 0")
    case None
    then have "q \<notin> set avail" by (simp add: findCoord_None)
    with None Cons show ?thesis by simp
  next
    case (Some i)
    then have "q \<in> set avail" using findCoord_None[of avail q 0] by auto
    with Some show ?thesis by simp
  qed
qed
subsection \<open>One call of pickAttackCoordinates\<close>

lemma pick_empty:
  "availableShots a = [] \<Longrightarrow> pickAttackCoordinates a r = ((-1, -1), a, False)"
  by (simp add: pickAttackCoordinates_def)

lemma pick_fields:
  "pickAttackCoordinates a r = (c, a', used) \<Longrightarrow>
   difficulty a' = difficulty a \<and> boardSizeAI a' = boardSizeAI a \<and>
   opponentBoard a' = opponentBoard a \<and> aiBoard a' = aiBoard a"
  by (auto simp: pickAttackCoordinates_def Let_def split: if_splits prod.splits option.splits)

lemma pick_easy:
  assumes "difficulty a = EASY" and "availableShots a \<noteq> []" and "distinct (availableShots a)"
    and "pickAttackCoordinates a r = (c, a', used)"
  shows "c = availableShots a ! (r mod length (availableShots a))"
    and "c \<in> set (availableShots a)"
    and "availableShots a' = remove1 c (availableShots a)"
    and "parityShots a' = parityShots a" and "targetQueue a' = targetQueue a" and "used"
proof -
  let ?i = "r mod length (availableShots a)"
  have i: "?i < length (availableShots a)" using assms(2) by simp
  from assms show c: "c = availableShots a ! ?i"
    by (auto simp: pickAttackCoordinates_def Let_def)
  from i c show "c \<in> set (availableShots a)" by simp
  from assms erase_at_distinct[OF assms(3) i] c
  show "availableShots a' = remove1 c (availableShots a)"
    by (auto simp: pickAttackCoordinates_def Let_def)
  from assms show "parityShots a' = parityShots a" "targetQueue a' = targetQueue a" "used"
    by (auto simp: pickAttackCoordinates_def Let_def)
qed

text \<open>The smart AI: what is returned, and from which of the three sources.\<close>

lemma pick_smart:
  assumes smart: "difficulty a = SMART" and ne: "availableShots a \<noteq> []"
    and inv: "pool_inv a"
    and pick: "pickAttackCoordinates a r = (c, a', used)"
  shows "(case dropWhile (\<lambda>q. q \<notin> set (availableShots a)) (targetQueue a) of
            q # rest \<Rightarrow> c = q \<and> targetQueue a' = rest \<and> \<not> used
          | [] \<Rightarrow> targetQueue a' = [] \<and>
                 (if parityShots a \<noteq> []
                  then c = last (parityShots a) \<and> c \<in> set (parityShots a) \<and> \<not> used
                  else c = availableShots a ! (r mod length (availableShots a)) \<and> used))"
    and "c \<in> set (availableShots a)"
    and "availableShots a' = remove1 c (availableShots a)"
    and "parityShots a' = remove1 c (parityShots a)"
proof -
  have da: "distinct (availableShots a)" and dp: "distinct (parityShots a)"
    and sub: "set (parityShots a) \<subseteq> set (availableShots a)"
    using inv smart by (auto simp: pool_inv_def list_all_iff)
  have all: "(case dropWhile (\<lambda>q. q \<notin> set (availableShots a)) (targetQueue a) of
            q # rest \<Rightarrow> c = q \<and> targetQueue a' = rest \<and> \<not> used
          | [] \<Rightarrow> targetQueue a' = [] \<and>
                 (if parityShots a \<noteq> []
                  then c = last (parityShots a) \<and> c \<in> set (parityShots a) \<and> \<not> used
                  else c = availableShots a ! (r mod length (availableShots a)) \<and> used)) \<and>
        c \<in> set (availableShots a) \<and>
        availableShots a' = remove1 c (availableShots a) \<and>
        parityShots a' = remove1 c (parityShots a)"
  proof (cases "dropWhile (\<lambda>q. q \<notin> set (availableShots a)) (targetQueue a)")
    case Nil
    have ql: "queueLoop (targetQueue a) (availableShots a) = ([], None)"
      unfolding queueLoop_dropWhile Nil by simp
    show ?thesis
    proof (cases "parityShots a = []")
      case True
      let ?i = "r mod length (availableShots a)"
      have i: "?i < length (availableShots a)" using ne by simp
      show ?thesis
        unfolding Nil using pick smart ne ql True erase_at_distinct[OF da i] i
        by (auto simp: pickAttackCoordinates_def Let_def)
    next
      case False
      then have "last (parityShots a) \<in> set (parityShots a)" by simp
      then show ?thesis
        unfolding Nil using pick smart ne ql False sub butlast_remove1_last[OF dp False]
        by (auto simp: pickAttackCoordinates_def Let_def erase_coord_remove1)
    qed
  next
    case (Cons q rest)
    then have "q \<in> set (availableShots a)"
      by (metis (mono_tags, lifting) dropWhile_eq_Cons_conv)
    then obtain i where i: "findCoord (availableShots a) q 0 = Some i"
      using findCoord_None[of "availableShots a" q 0] by auto
    have ql: "queueLoop (targetQueue a) (availableShots a) = (rest, Some (q, i))"
      unfolding queueLoop_dropWhile Cons using i by simp
    show ?thesis
      unfolding Cons using pick smart ne ql erase_at_found[OF i]
      by (auto simp: pickAttackCoordinates_def Let_def erase_coord_remove1)
  qed
  then show "(case dropWhile (\<lambda>q. q \<notin> set (availableShots a)) (targetQueue a) of
            q # rest \<Rightarrow> c = q \<and> targetQueue a' = rest \<and> \<not> used
          | [] \<Rightarrow> targetQueue a' = [] \<and>
                 (if parityShots a \<noteq> []
                  then c = last (parityShots a) \<and> c \<in> set (parityShots a) \<and> \<not> used
                  else c = availableShots a ! (r mod length (availableShots a)) \<and> used))"
    and "c \<in> set (availableShots a)"
    and "availableShots a' = remove1 c (availableShots a)"
    and "parityShots a' = remove1 c (parityShots a)"
    by simp_all
qed

lemma pick_pool:
  assumes inv: "pool_inv a" and ne: "availableShots a \<noteq> []"
    and pick: "pickAttackCoordinates a r = (c, a', used)"
  shows "c \<in> set (availableShots a)"
    and "availableShots a' = remove1 c (availableShots a)"
    and "pool_inv a'"
proof -
  have da: "distinct (availableShots a)" using inv by (simp add: pool_inv_def)
  have d': "difficulty a' = difficulty a" using pick_fields[OF pick] by simp
  have both: "c \<in> set (availableShots a) \<and> availableShots a' = remove1 c (availableShots a) \<and>
              pool_inv a'"
  proof (cases "difficulty a")
    case EASY
    from pick_easy[OF EASY ne da pick] da d' EASY show ?thesis
      by (simp add: pool_inv_def)
  next
    case SMART
    have dp: "distinct (parityShots a)"
      and sub: "set (parityShots a) \<subseteq> set (availableShots a)"
      using inv SMART by (auto simp: pool_inv_def list_all_iff)
    note p = pick_smart[OF SMART ne inv pick]
    have "set (remove1 c (parityShots a)) \<subseteq> set (remove1 c (availableShots a))"
      using sub da dp by auto
    with p da dp d' show ?thesis
      by (auto simp: pool_inv_def list_all_iff)
  qed
  then show "c \<in> set (availableShots a)"
    and "availableShots a' = remove1 c (availableShots a)"
    and "pool_inv a'" by simp_all
qed

subsection \<open>recordShotResult touches neither pool\<close>

lemma addSmartNeighbors_loop_spec:
  assumes "wf_grid (boardSizeAI a) (opponentBoard a)"
  shows "\<exists>a'. addSmartNeighbors_loop a x y ds = Some a' \<and>
     a' = a\<lparr> targetQueue := targetQueue a @
             filter (\<lambda>(nx, ny). 0 \<le> nx \<and> nx < boardSizeAI a \<and> 0 \<le> ny \<and> ny < boardSizeAI a \<and>
                       (get_cell (opponentBoard a) ny nx = Some (CHR ''?'') \<or>
                        get_cell (opponentBoard a) ny nx = Some (CHR '' '')))
                    (map (\<lambda>(dx, dy). (x + dx, y + dy)) ds) \<rparr>"
  using assms
proof (induction ds arbitrary: a)
  case Nil
  then show ?case by simp
next
  case (Cons d ds)
  obtain dx dy where d: "d = (dx, dy)" by (cases d)
  let ?nx = "x + dx" and ?ny = "y + dy"
  show ?case
  proof (cases "?nx \<ge> 0 \<and> ?nx < boardSizeAI a \<and> ?ny \<ge> 0 \<and> ?ny < boardSizeAI a")
    case False
    with Cons.IH[OF Cons.prems] d show ?thesis by (auto simp: Let_def)
  next
    case True
    then obtain v where v: "get_cell (opponentBoard a) ?ny ?nx = Some v"
      using get_cell_Some_iff[OF Cons.prems, of ?ny ?nx] by auto
    show ?thesis
    proof (cases "v = CHR ''?'' \<or> v = CHR '' ''")
      case False
      with Cons.IH[OF Cons.prems] d True v show ?thesis by (auto simp: Let_def)
    next
      case yes: True
      let ?a1 = "a\<lparr> targetQueue := targetQueue a @ [(?nx, ?ny)] \<rparr>"
      have "wf_grid (boardSizeAI ?a1) (opponentBoard ?a1)" using Cons.prems by simp
      from Cons.IH[OF this] d True v yes show ?thesis by (auto simp: Let_def)
    qed
  qed
qed

lemma addSmartNeighbors_loop_pools:
  "addSmartNeighbors_loop a x y ds = Some a' \<Longrightarrow>
   availableShots a' = availableShots a \<and> parityShots a' = parityShots a \<and>
   difficulty a' = difficulty a \<and> boardSizeAI a' = boardSizeAI a \<and>
   opponentBoard a' = opponentBoard a"
proof (induction ds arbitrary: a)
  case Nil
  then show ?case by simp
next
  case (Cons d ds)
  obtain dx dy where d: "d = (dx, dy)" by (cases d)
  from Cons.prems d consider
    "addSmartNeighbors_loop a x y ds = Some a'"
    | "addSmartNeighbors_loop (a\<lparr> targetQueue := targetQueue a @ [(x + dx, y + dy)] \<rparr>) x y ds
       = Some a'"
    by (auto simp: Let_def split: if_splits option.splits)
  then show ?case
  proof cases
    case 1
    from Cons.IH[OF 1] show ?thesis .
  next
    case 2
    from Cons.IH[OF 2] show ?thesis by simp
  qed
qed

lemma addSmartNeighbors_pools:
  "addSmartNeighbors a x y = Some a' \<Longrightarrow>
   availableShots a' = availableShots a \<and> parityShots a' = parityShots a \<and>
   difficulty a' = difficulty a \<and> boardSizeAI a' = boardSizeAI a \<and>
   opponentBoard a' = opponentBoard a"
  unfolding addSmartNeighbors_def by (rule addSmartNeighbors_loop_pools)

lemma recordShotResult_pools:
  "recordShotResult a x y hit sunk = Some a' \<Longrightarrow>
   availableShots a' = availableShots a \<and> parityShots a' = parityShots a \<and>
   difficulty a' = difficulty a \<and> boardSizeAI a' = boardSizeAI a"
  by (auto simp: recordShotResult_def
           split: if_splits option.splits dest!: addSmartNeighbors_pools)

lemma recordShotResult_pool_inv:
  "recordShotResult a x y hit sunk = Some a' \<Longrightarrow> pool_inv a \<Longrightarrow> pool_inv a'"
  using recordShotResult_pools[of a x y hit sunk a'] by (simp add: pool_inv_def)

subsection \<open>The life of an AI object\<close>

lemma ai_run_inv:
  assumes "ai_run a ops = Some (cs, a')"
    and "pool_inv a"
    and "set (availableShots a) = S - set P"
    and "distinct (filter (\<lambda>c. c \<noteq> (-1, -1)) P)"
    and "(-1, -1) \<notin> S"
  shows "pool_inv a' \<and> set (availableShots a') = S - set (P @ cs) \<and>
         distinct (filter (\<lambda>c. c \<noteq> (-1, -1)) (P @ cs)) \<and>
         difficulty a' = difficulty a \<and> boardSizeAI a' = boardSizeAI a"
  using assms
proof (induction ops arbitrary: a cs P)
  case Nil
  then show ?case by simp
next
  case (Cons p ops)
  show ?case
  proof (cases p)
    case (Record x y hit sunk)
    with Cons.prems(1) obtain a1 where
      a1: "recordShotResult a x y hit sunk = Some a1" and run: "ai_run a1 ops = Some (cs, a')"
      by (auto split: option.splits)
    note f = recordShotResult_pools[OF a1]
    from Cons.IH[OF run recordShotResult_pool_inv[OF a1 Cons.prems(2)] _ Cons.prems(4,5), of ]
      Cons.prems(3) f show ?thesis by simp
  next
    case (Pick r)
    obtain c a1 used where pk: "pickAttackCoordinates a r = (c, a1, used)"
      by (cases "pickAttackCoordinates a r")
    with Cons.prems(1) Pick obtain cs1 where
      run: "ai_run a1 ops = Some (cs1, a')" and cs: "cs = c # cs1"
      by (auto split: option.splits)
    note fl = pick_fields[OF pk]
    show ?thesis
    proof (cases "availableShots a = []")
      case True
      with pk have c: "c = (-1, -1)" and a1: "a1 = a" by (simp_all add: pick_empty)
      have s: "set (availableShots a1) = S - set (P @ [c])"
        using Cons.prems(3) True a1 by auto
      have d: "distinct (filter (\<lambda>c. c \<noteq> (-1, -1)) (P @ [c]))"
        using Cons.prems(4) c by simp
      from Cons.IH[OF run _ s d Cons.prems(5)] Cons.prems(2) a1 cs show ?thesis by simp
    next
      case False
      note p = pick_pool[OF Cons.prems(2) False pk]
      have da: "distinct (availableShots a)" using Cons.prems(2) by (simp add: pool_inv_def)
      have cS: "c \<in> S" "c \<notin> set P" using p(1) Cons.prems(3) by auto
      have s: "set (availableShots a1) = S - set (P @ [c])"
        using p(2) da Cons.prems(3) by auto
      have d: "distinct (filter (\<lambda>c. c \<noteq> (-1, -1)) (P @ [c]))"
        using Cons.prems(4) cS by simp
      from Cons.IH[OF run p(3) s d Cons.prems(5)] fl cs show ?thesis by simp
    qed
  qed
qed

lemma ai_run_fresh:
  assumes "AILogic_new d n seed rsS fuel rsP = Some a0" and "ai_run a0 ops = Some (picked, a)"
  shows "pool_inv a" and "set (availableShots a) = set (all_cells n) - set picked"
    and "distinct (filter (\<lambda>c. c \<noteq> (-1, -1)) picked)"
    and "difficulty a = d" and "boardSizeAI a = n"
proof -
  note p = AILogic_new_pools[OF assms(1)] and f = AILogic_new_fields[OF assms(1)]
  have "(-1, -1) \<notin> set (all_cells n)" by (simp add: all_cells_set)
  from ai_run_inv[OF assms(2) p(1), of "set (all_cells n)" "[]"] p(2) this f
  show "pool_inv a" and "set (availableShots a) = set (all_cells n) - set picked"
    and "distinct (filter (\<lambda>c. c \<noteq> (-1, -1)) picked)"
    and "difficulty a = d" and "boardSizeAI a = n"
    by simp_all
qed

text \<open>
  Claim C10.  For an AI object of either difficulty, at any point of its life:
  \<open>pickAttackCoordinates\<close> returns (-1, -1) exactly when the pool of available shots
  is empty, which is exactly when every cell of the board has been picked before;
  otherwise it returns a cell of the pool that was never picked before and removes
  it from the pool.  So the coordinates returned over the life of the object, the
  (-1, -1) answers apart, are pairwise different.
\<close>

theorem pick_never_repeats:
  assumes "AILogic_new d n seed rsS fuel rsP = Some a0" and "ai_run a0 ops = Some (picked, a)"
  shows "(case pickAttackCoordinates a r of
            (c, a', used) \<Rightarrow>
              (c = (-1, -1)) = (availableShots a = []) \<and>
              (availableShots a = []) =
                 (\<forall>x y. 0 \<le> x \<and> x < n \<and> 0 \<le> y \<and> y < n \<longrightarrow> (x, y) \<in> set picked) \<and>
              (c \<noteq> (-1, -1) \<longrightarrow>
                 c \<in> set (availableShots a) \<and> c \<notin> set picked \<and>
                 availableShots a' = remove1 c (availableShots a) \<and>
                 c \<notin> set (availableShots a'))) \<and>
         distinct (filter (\<lambda>c. c \<noteq> (-1, -1)) picked)"
proof -
  note f = ai_run_fresh[OF assms]
  obtain c a' used where pk: "pickAttackCoordinates a r = (c, a', used)"
    by (cases "pickAttackCoordinates a r")
  have da: "distinct (availableShots a)" using f(1) by (simp add: pool_inv_def)
  have tried: "(availableShots a = []) =
                 (\<forall>x y. 0 \<le> x \<and> x < n \<and> 0 \<le> y \<and> y < n \<longrightarrow> (x, y) \<in> set picked)"
  proof -
    have "(availableShots a = []) = (set (all_cells n) \<subseteq> set picked)"
      using f(2) by (metis Diff_eq_empty_iff set_empty)
    then show ?thesis by (auto simp: all_cells_set)
  qed
  show ?thesis
  proof (cases "availableShots a = []")
    case True
    with pk pick_empty[OF True, of r] tried f(3) show ?thesis by simp
  next
    case False
    note p = pick_pool[OF f(1) False pk]
    have "c \<in> set (all_cells n)" "c \<notin> set picked" using p(1) f(2) by auto
    then have "c \<noteq> (-1, -1)" by (auto simp: all_cells_set)
    with p da False tried f(3) \<open>c \<notin> set picked\<close> pk show ?thesis by simp
  qed
qed
lemma demo_ai_run:
  "map_option (\<lambda>a0. map_option fst (ai_run a0 demo_ai_ops)) (demo_ai SMART)
   = Some (Some [(9, 5), (3, 3), (5, 4), (5, 6)])"
  by code_simp

theorem pick_never_repeats_witness:
  "\<exists>a0 picked a. demo_ai SMART = Some a0 \<and> ai_run a0 demo_ai_ops = Some (picked, a) \<and>
     picked = [(9, 5), (3, 3), (5, 4), (5, 6)] \<and>
     fst (pickAttackCoordinates a 0) \<noteq> (-1, -1) \<and>
     fst (pickAttackCoordinates a 0) \<notin> set picked"
proof -
  from demo_ai_run obtain a0 picked a where
    a0: "demo_ai SMART = Some a0" and run: "ai_run a0 demo_ai_ops = Some (picked, a)"
    and picked: "picked = [(9, 5), (3, 3), (5, 4), (5, 6)]"
    by auto
  obtain c a' used where pk: "pickAttackCoordinates a 0 = (c, a', used)"
    by (cases "pickAttackCoordinates a 0")
  have "\<not> (\<forall>x y. 0 \<le> x \<and> x < (10::int) \<and> 0 \<le> y \<and> y < (10::int) \<longrightarrow> (x, y) \<in> set picked)"
    unfolding picked by (auto intro!: exI[of _ 0])
  with pick_never_repeats[OF a0[unfolded demo_ai_def] run, of 0] pk
  have "c \<noteq> (-1, -1) \<and> c \<notin> set picked" by auto
  with a0 run picked pk show ?thesis by auto
qed

text \<open>
  Claim C6.  For a smart AI at any point of its life: with no untried cell left the
  answer is \<open>(-1, -1)\<close> and nothing changes, whatever the follow-up queue holds.
  With at least one untried cell left: if the follow-up queue holds an entry that is
  still in the pool of available shots, the first such entry is returned and the
  queue keeps what follows it; otherwise the queue is left empty and, if the parity
  pool is not empty, a cell of the parity pool (its last) is returned; otherwise the
  cell of the pool at index \<open>rand() % size\<close>.  In each of these three cases the
  cell returned was in the pool of available shots and is removed from both pools.
\<close>

theorem smart_pick_priority:
  assumes "AILogic_new SMART n seed rsS fuel rsP = Some a0"
    and "ai_run a0 ops = Some (picked, a)"
  shows "case pickAttackCoordinates a r of
           (c, a', used) \<Rightarrow>
             if availableShots a = [] then c = (-1, -1) \<and> a' = a
             else
             (case dropWhile (\<lambda>q. q \<notin> set (availableShots a)) (targetQueue a) of
                q # rest \<Rightarrow> c = q \<and> targetQueue a' = rest
              | [] \<Rightarrow> targetQueue a' = [] \<and>
                     (if parityShots a \<noteq> []
                      then c = last (parityShots a) \<and> c \<in> set (parityShots a)
                      else c = availableShots a ! (r mod length (availableShots a)))) \<and>
             c \<in> set (availableShots a) \<and>
             availableShots a' = remove1 c (availableShots a) \<and>
             parityShots a' = remove1 c (parityShots a) \<and>
             c \<notin> set (availableShots a') \<and> c \<notin> set (parityShots a')"
proof (cases "availableShots a = []")
  case True
  from pick_empty[OF True, of r] True show ?thesis by simp
next
  case False
  note f = ai_run_fresh[OF assms(1,2)]
  obtain c a' used where pk: "pickAttackCoordinates a r = (c, a', used)"
    by (cases "pickAttackCoordinates a r")
  have da: "distinct (availableShots a)" and dp: "distinct (parityShots a)"
    using f(1,4) by (auto simp: pool_inv_def)
  note p = pick_smart[OF f(4) False f(1) pk]
  have src: "case dropWhile (\<lambda>q. q \<notin> set (availableShots a)) (targetQueue a) of
                q # rest \<Rightarrow> c = q \<and> targetQueue a' = rest
              | [] \<Rightarrow> targetQueue a' = [] \<and>
                     (if parityShots a \<noteq> []
                      then c = last (parityShots a) \<and> c \<in> set (parityShots a)
                      else c = availableShots a ! (r mod length (availableShots a)))"
  proof (cases "dropWhile (\<lambda>q. q \<notin> set (availableShots a)) (targetQueue a)")
    case Nil
    from p(1) show ?thesis unfolding Nil by (simp split: if_splits)
  next
    case (Cons q rest)
    from p(1) show ?thesis unfolding Cons by simp
  qed
  have gone: "c \<notin> set (availableShots a')" "c \<notin> set (parityShots a')"
    using p(3,4) da dp by simp_all
  from src p(2,3,4) gone pk False show ?thesis by simp
qed

lemma demo_ai_hit:
  "map_option (\<lambda>a0. map_option (\<lambda>(p, a). (p, targetQueue a, (5, 4) \<in> set (availableShots a),
                                           length (availableShots a)))
                  (ai_run a0 (take 3 demo_ai_ops))) (demo_ai SMART)
   = Some (Some ([(9, 5), (3, 3)], [(5, 4), (5, 6), (4, 5), (6, 5)], True, 98))"
  by code_simp

theorem smart_pick_priority_witness:
  "\<exists>a0 picked a. demo_ai SMART = Some a0 \<and> ai_run a0 (take 3 demo_ai_ops) = Some (picked, a) \<and>
     targetQueue a = [(5, 4), (5, 6), (4, 5), (6, 5)] \<and>
     fst (pickAttackCoordinates a 0) = (5, 4) \<and>
     targetQueue (fst (snd (pickAttackCoordinates a 0))) = [(5, 6), (4, 5), (6, 5)]"
proof -
  from demo_ai_hit obtain a0 picked a where
    a0: "demo_ai SMART = Some a0" and run: "ai_run a0 (take 3 demo_ai_ops) = Some (picked, a)"
    and q: "targetQueue a = [(5, 4), (5, 6), (4, 5), (6, 5)]"
    and av: "(5, 4) \<in> set (availableShots a)" and len: "length (availableShots a) = 98"
    by auto
  have ne: "availableShots a \<noteq> []" using len by auto
  obtain c a' used where pk: "pickAttackCoordinates a 0 = (c, a', used)"
    by (cases "pickAttackCoordinates a 0")
  from smart_pick_priority[OF a0[unfolded demo_ai_def] run, of 0] pk q av ne
  have "c = (5, 4) \<and> targetQueue a' = [(5, 6), (4, 5), (6, 5)]" by simp
  with a0 run q pk show ?thesis by auto
qed

text \<open>
  The priority of claim C6 has no answer for a smart AI that has tried every cell:
  after a hundred picks on the 10 by 10 board the queue and both pools are empty, and
  the next pick returns \<open>(-1, -1)\<close>, which is not a cell of the pool.
\<close>

lemma demo_ai_exhausted:
  "map_option (\<lambda>a0. map_option (\<lambda>(p, a). (length p, availableShots a, parityShots a, targetQueue a))
                  (ai_run a0 hundred_picks)) (demo_ai SMART)
   = Some (Some (100, [], [], []))"
  by code_simp

theorem smart_pick_exhausted:
  "\<exists>a0 picked a. demo_ai SMART = Some a0 \<and> ai_run a0 hundred_picks = Some (picked, a) \<and>
     length picked = 100 \<and>
     targetQueue a = [] \<and> parityShots a = [] \<and> availableShots a = [] \<and>
     fst (pickAttackCoordinates a 0) = (-1, -1) \<and>
     fst (pickAttackCoordinates a 0) \<notin> set (availableShots a)"
proof -
  from demo_ai_exhausted obtain a0 picked a where
    a0: "demo_ai SMART = Some a0" and run: "ai_run a0 hundred_picks = Some (picked, a)"
    and e: "availableShots a = []" "parityShots a = []" "targetQueue a = []"
    and l: "length picked = 100"
    by auto
  from a0 run e l pick_empty[OF e(1), of 0] show ?thesis by auto
qed

subsection \<open>Recording a hit\<close>

lemma record_hit_queue:
  assumes smart: "difficulty a = SMART"
    and wf: "wf_grid (boardSizeAI a) (opponentBoard a)"
    and inb: "0 \<le> x" "x < boardSizeAI a" "0 \<le> y" "y < boardSizeAI a"
  shows "\<exists>a'. recordShotResult a x y True False = Some a' \<and>
           targetQueue a' = targetQueue a @
             filter (\<lambda>(nx, ny). 0 \<le> nx \<and> nx < boardSizeAI a \<and> 0 \<le> ny \<and> ny < boardSizeAI a \<and>
                       (get_cell (opponentBoard a) ny nx = Some (CHR ''?'') \<or>
                        get_cell (opponentBoard a) ny nx = Some (CHR '' '')))
                    [(x, y - 1), (x, y + 1), (x - 1, y), (x + 1, y)] \<and>
           availableShots a' = availableShots a \<and> parityShots a' = parityShots a \<and>
           difficulty a' = difficulty a"
proof -
  obtain g where g: "set_cell (opponentBoard a) y x (CHR ''X'') = Some g"
    using set_cell_wf[OF wf inb(3,4) inb(1,2)] by blast
  define a1 where "a1 = a\<lparr> opponentBoard := g \<rparr>"
  define nbs where "nbs = [(x, y - 1), (x, y + 1), (x - 1, y), (x + 1, y)]"
  define unknown where "unknown = (\<lambda>gr (nx, ny).
      0 \<le> nx \<and> nx < boardSizeAI a \<and> 0 \<le> ny \<and> ny < boardSizeAI a \<and>
      (get_cell gr ny nx = Some (CHR ''?'') \<or> get_cell gr ny nx = Some (CHR '' '')))"
  have a1f: "boardSizeAI a1 = boardSizeAI a" "opponentBoard a1 = g"
    "targetQueue a1 = targetQueue a" "difficulty a1 = SMART"
    "availableShots a1 = availableShots a" "parityShots a1 = parityShots a"
    using smart by (simp_all add: a1_def)
  have wf1: "wf_grid (boardSizeAI a1) (opponentBoard a1)"
    using set_cell_preserves_wf[OF g wf] by (simp add: a1f)
  have nbs_map: "map (\<lambda>(dx, dy). (x + dx, y + dy)) [(0, -1), (0, 1), (-1, 0), (1, 0)] = nbs"
    by (simp add: nbs_def)
  from addSmartNeighbors_loop_spec[OF wf1, of x y "[(0, -1), (0, 1), (-1, 0), (1, 0)]"]
  obtain a2 where a2: "addSmartNeighbors_loop a1 x y [(0, -1), (0, 1), (-1, 0), (1, 0)] = Some a2"
    and a2eq: "a2 = a1\<lparr> targetQueue := targetQueue a1 @ filter (unknown g) nbs \<rparr>"
    unfolding nbs_map a1f unknown_def by (elim exE conjE)
  have same: "unknown g p = unknown (opponentBoard a) p" if "p \<in> set nbs" for p
  proof -
    obtain nx ny where p: "p = (nx, ny)" by (cases p)
    have "(ny, nx) \<noteq> (y, x)" using that p by (auto simp: nbs_def)
    then have "get_cell g ny nx = get_cell (opponentBoard a) ny nx"
      using get_set_cell[OF g, of ny nx] by auto
    then show ?thesis by (simp add: unknown_def p)
  qed
  have filt: "filter (unknown g) nbs = filter (unknown (opponentBoard a)) nbs"
    by (rule filter_cong[OF refl]) (rule same)
  have q: "targetQueue a2 = targetQueue a @ filter (unknown (opponentBoard a)) nbs"
    by (simp add: a2eq a1f filt)
  have a2f: "availableShots a2 = availableShots a" "parityShots a2 = parityShots a"
    "difficulty a2 = difficulty a"
    using smart by (simp_all add: a2eq a1f)
  have res: "recordShotResult a x y True False = Some (a2\<lparr> lastHit := (x, y), hunting := True \<rparr>)"
    unfolding recordShotResult_def addSmartNeighbors_def
    using smart inb g a2 by (simp add: a1_def)
  show ?thesis
    unfolding res using q a2f by (simp add: unknown_def nbs_def)
qed

text \<open>
  Claim C7.  For a smart AI whose knowledge grid is \<open>boardSize\<close> by \<open>boardSize\<close>,
  \<open>recordShotResult(x, y, hit = true, sunk = false)\<close> with (x, y) inside the board
  appends to the follow-up queue exactly the orthogonal neighbours of (x, y), in the
  order up, down, left, right, that are inside the board and still unknown (\<open>'?'\<close>
  or blank) in the AI's knowledge grid, which is the source's test for a cell not yet
  shot at.  On a new smart AI for a board of at least 6 by 6 (so that (5,5) is a
  cell), after \<open>recordShotResult(5, 5, true, false)\<close> the next pick is one of
  (4,5), (6,5), (5,4), (5,6).
\<close>

theorem hit_enqueues_neighbours:
  "(difficulty a = SMART \<and> wf_grid (boardSizeAI a) (opponentBoard a) \<and>
    0 \<le> x \<and> x < boardSizeAI a \<and> 0 \<le> y \<and> y < boardSizeAI a \<longrightarrow>
      (\<exists>a'. recordShotResult a x y True False = Some a' \<and>
         targetQueue a' = targetQueue a @
           filter (\<lambda>(nx, ny). 0 \<le> nx \<and> nx < boardSizeAI a \<and> 0 \<le> ny \<and> ny < boardSizeAI a \<and>
                     (get_cell (opponentBoard a) ny nx = Some (CHR ''?'') \<or>
                      get_cell (opponentBoard a) ny nx = Some (CHR '' '')))
                  [(x, y - 1), (x, y + 1), (x - 1, y), (x + 1, y)])) \<and>
   (AILogic_new SMART n seed rsS fuel rsP = Some a0 \<and> 6 \<le> n \<longrightarrow>
      (\<exists>a1. recordShotResult a0 5 5 True False = Some a1 \<and>
         fst (pickAttackCoordinates a1 r) \<in> {(4, 5), (6, 5), (5, 4), (5, 6)}))"
proof (intro conjI impI)
  assume "difficulty a = SMART \<and> wf_grid (boardSizeAI a) (opponentBoard a) \<and>
    0 \<le> x \<and> x < boardSizeAI a \<and> 0 \<le> y \<and> y < boardSizeAI a"
  then show "\<exists>a'. recordShotResult a x y True False = Some a' \<and>
         targetQueue a' = targetQueue a @
           filter (\<lambda>(nx, ny). 0 \<le> nx \<and> nx < boardSizeAI a \<and> 0 \<le> ny \<and> ny < boardSizeAI a \<and>
                     (get_cell (opponentBoard a) ny nx = Some (CHR ''?'') \<or>
                      get_cell (opponentBoard a) ny nx = Some (CHR '' '')))
                  [(x, y - 1), (x, y + 1), (x - 1, y), (x + 1, y)]"
    using record_hit_queue[of a x y] by blast
next
  assume fresh: "AILogic_new SMART n seed rsS fuel rsP = Some a0 \<and> 6 \<le> n"
  then have new: "AILogic_new SMART n seed rsS fuel rsP = Some a0" and n: "6 \<le> n" by simp_all
  note f = AILogic_new_fields[OF new] and p = AILogic_new_pools[OF new]
  have wf: "wf_grid (boardSizeAI a0) (opponentBoard a0)"
    using n by (simp add: f wf_grid_def list_all_iff)
  have c54: "get_cell (opponentBoard a0) 4 5 = Some (CHR ''?'')"
    using n by (simp add: f get_cell_def)
  from record_hit_queue[OF f(4) wf, of 5 5] n f(5)
  obtain a1 where a1: "recordShotResult a0 5 5 True False = Some a1"
    and q: "targetQueue a1 = targetQueue a0 @
             filter (\<lambda>(nx, ny). 0 \<le> nx \<and> nx < boardSizeAI a0 \<and> 0 \<le> ny \<and> ny < boardSizeAI a0 \<and>
                       (get_cell (opponentBoard a0) ny nx = Some (CHR ''?'') \<or>
                        get_cell (opponentBoard a0) ny nx = Some (CHR '' '')))
                    [(5, 5 - 1), (5, 5 + 1), (5 - 1, 5), (5 + 1, 5)]"
    and same: "availableShots a1 = availableShots a0" "parityShots a1 = parityShots a0"
      "difficulty a1 = difficulty a0"
    by auto
  obtain rest where q1: "targetQueue a1 = (5, 4) # rest"
    using q c54 n f(3,5) by simp
  have inv1: "pool_inv a1" using p(1) same by (simp add: pool_inv_def)
  have in54: "(5, 4) \<in> set (availableShots a1)"
    using p(2) same n by (simp add: all_cells_set)
  then have ne: "availableShots a1 \<noteq> []" by auto
  obtain c a' used where pk: "pickAttackCoordinates a1 r = (c, a', used)"
    by (cases "pickAttackCoordinates a1 r")
  from pick_smart(1)[OF _ ne inv1 pk] same f(4) q1 in54 have "c = (5, 4)" by simp
  with a1 pk show "\<exists>a1. recordShotResult a0 5 5 True False = Some a1 \<and>
         fst (pickAttackCoordinates a1 r) \<in> {(4, 5), (6, 5), (5, 4), (5, 6)}"
    by auto
qed

lemma demo_ai_new:
  "map_option (\<lambda>a0. (difficulty a0, boardSizeAI a0, wf_grid (boardSizeAI a0) (opponentBoard a0),
                      targetQueue a0))
      (demo_ai SMART) = Some (SMART, 10, True, [])"
  by code_simp

theorem hit_enqueues_neighbours_witness:
  "\<exists>a0 a1. demo_ai SMART = Some a0 \<and> recordShotResult a0 5 5 True False = Some a1 \<and>
      fst (pickAttackCoordinates a1 0) \<in> {(4, 5), (6, 5), (5, 4), (5, 6)} \<and>
      (\<exists>a'. recordShotResult a0 0 9 True False = Some a' \<and>
         targetQueue a' = filter (\<lambda>(nx, ny). 0 \<le> nx \<and> nx < 10 \<and> 0 \<le> ny \<and> ny < 10 \<and>
                     (get_cell (opponentBoard a0) ny nx = Some (CHR ''?'') \<or>
                      get_cell (opponentBoard a0) ny nx = Some (CHR '' '')))
                  [(0, 8), (0, 10), (- 1, 9), (1, 9)])"
proof -
  from demo_ai_new obtain a0 where a0: "demo_ai SMART = Some a0"
    and f: "difficulty a0 = SMART" "boardSizeAI a0 = 10"
      "wf_grid (boardSizeAI a0) (opponentBoard a0)" "targetQueue a0 = []"
    by auto
  have new: "AILogic_new SMART 10 12345 (\<lambda>k. 7 * k + 3) 20 demo_tape = Some a0"
    using a0 by (simp only: demo_ai_def)
  note th = hit_enqueues_neighbours[of a0 0 9 10 12345 "\<lambda>k. 7 * k + 3" 20 demo_tape a0 0]
  have pre1: "difficulty a0 = SMART \<and> wf_grid (boardSizeAI a0) (opponentBoard a0) \<and>
    0 \<le> (0::int) \<and> 0 < boardSizeAI a0 \<and> 0 \<le> (9::int) \<and> 9 < boardSizeAI a0"
    using f by simp
  have pre2: "AILogic_new SMART 10 12345 (\<lambda>k. 7 * k + 3) 20 demo_tape = Some a0 \<and> (6::int) \<le> 10"
    using new by simp
  from th[THEN conjunct1, rule_format, OF pre1] obtain a' where
    r1: "recordShotResult a0 0 9 True False = Some a'"
    and q1: "targetQueue a' = targetQueue a0 @
           filter (\<lambda>(nx, ny). 0 \<le> nx \<and> nx < boardSizeAI a0 \<and> 0 \<le> ny \<and> ny < boardSizeAI a0 \<and>
                     (get_cell (opponentBoard a0) ny nx = Some (CHR ''?'') \<or>
                      get_cell (opponentBoard a0) ny nx = Some (CHR '' '')))
                  [(0, 9 - 1), (0, 9 + 1), (0 - 1, 9), (0 + 1, 9)]"
    by blast
  from th[THEN conjunct2, rule_format, OF pre2] obtain a1 where
    r2: "recordShotResult a0 5 5 True False = Some a1"
    and p2: "fst (pickAttackCoordinates a1 0) \<in> {(4, 5), (6, 5), (5, 4), (5, 6)}"
    by blast
  have q1': "targetQueue a' = filter (\<lambda>(nx, ny). 0 \<le> nx \<and> nx < 10 \<and> 0 \<le> ny \<and> ny < 10 \<and>
                     (get_cell (opponentBoard a0) ny nx = Some (CHR ''?'') \<or>
                      get_cell (opponentBoard a0) ny nx = Some (CHR '' '')))
                  [(0, 8), (0, 10), (- 1, 9), (1, 9)]"
    using q1 f(2,4) by simp
  from a0 r1 q1' r2 p2 show ?thesis by blast
qed

section \<open>Properties of the turn engine\<close>

subsection \<open>The counters during a firing phase\<close>

lemma playerShot_counters:
  "playerShot st shot = Some st' \<Longrightarrow>
   playerShipsRemaining st' = playerShipsRemaining st \<and>
   (enemyShipsRemaining st' = enemyShipsRemaining st \<or>
    enemyShipsRemaining st' = enemyShipsRemaining st - 1)"
  by (auto simp: playerShot_def Let_def split: option.splits prod.splits if_splits)

lemma playerFire_counters:
  "playerFire st sel = Some st' \<Longrightarrow>
   playerShipsRemaining st' = playerShipsRemaining st \<and>
   (0 < enemyShipsRemaining st \<longrightarrow> 0 \<le> enemyShipsRemaining st')"
proof (induction sel arbitrary: st)
  case Nil
  then show ?case by auto
next
  case (Cons shot sel)
  from Cons.prems obtain st1 where s1: "playerShot st shot = Some st1"
    by (auto split: option.splits)
  note c = playerShot_counters[OF s1]
  show ?case
  proof (cases "enemyShipsRemaining st1 \<le> 0")
    case True
    with Cons.prems s1 have "st' = st1" by simp
    with c show ?thesis by auto
  next
    case False
    with Cons.prems s1 have "playerFire st1 sel = Some st'" by simp
    from Cons.IH[OF this] c False show ?thesis by auto
  qed
qed

lemma playerFire_stops:
  "playerFire st pre = Some st' \<Longrightarrow> 0 < enemyShipsRemaining st \<Longrightarrow>
   enemyShipsRemaining st' \<le> 0 \<Longrightarrow> playerFire st (pre @ post) = Some st'"
proof (induction pre arbitrary: st)
  case Nil
  then show ?case by simp
next
  case (Cons shot pre)
  from Cons.prems(1) obtain st1 where s1: "playerShot st shot = Some st1"
    by (auto split: option.splits)
  show ?case
  proof (cases "enemyShipsRemaining st1 \<le> 0")
    case True
    with Cons.prems s1 show ?thesis by simp
  next
    case False
    with Cons.prems s1 have "playerFire st1 pre = Some st'" by simp
    from Cons.IH[OF this _ Cons.prems(3)] False s1 show ?thesis by simp
  qed
qed

lemma enemyShot_counters:
  "enemyShot st rs = Some (res, st') \<Longrightarrow>
   enemyShipsRemaining st' = enemyShipsRemaining st \<and>
   (playerShipsRemaining st' = playerShipsRemaining st \<or>
    playerShipsRemaining st' = playerShipsRemaining st - 1)"
  by (auto simp: enemyShot_def Let_def split: option.splits prod.splits if_splits)

lemma enemyFire_counters:
  "enemyFire st m rs fired = Some (st', f) \<Longrightarrow>
   enemyShipsRemaining st' = enemyShipsRemaining st \<and>
   (0 < playerShipsRemaining st \<longrightarrow> 0 \<le> playerShipsRemaining st')"
proof (induction m arbitrary: st fired)
  case 0
  then show ?case by auto
next
  case (Suc m)
  from Suc.prems obtain res st1 where s1: "enemyShot st rs = Some (res, st1)"
    by (auto split: option.splits)
  note c = enemyShot_counters[OF s1]
  show ?case
  proof (cases res)
    case None
    with Suc.prems s1 have "st' = st1" by simp
    with c show ?thesis by auto
  next
    case (Some shot)
    show ?thesis
    proof (cases "playerShipsRemaining st1 \<le> 0")
      case True
      with Suc.prems s1 Some have "st' = st1" by simp
      with c show ?thesis by auto
    next
      case False
      with Suc.prems s1 Some have "enemyFire st1 m rs (fired @ [shot]) = Some (st', f)" by simp
      from Suc.IH[OF this] c False show ?thesis by auto
    qed
  qed
qed

lemma enemyFire_stops:
  "enemyFire st m rs fired = Some (st', f) \<Longrightarrow> 0 < playerShipsRemaining st \<Longrightarrow>
   playerShipsRemaining st' \<le> 0 \<Longrightarrow> enemyFire st (m + k) rs fired = Some (st', f)"
proof (induction m arbitrary: st fired)
  case 0
  then show ?case by simp
next
  case (Suc m)
  from Suc.prems(1) obtain res st1 where s1: "enemyShot st rs = Some (res, st1)"
    by (auto split: option.splits)
  note c = enemyShot_counters[OF s1]
  show ?case
  proof (cases res)
    case None
    with Suc.prems s1 c show ?thesis by auto
  next
    case (Some shot)
    show ?thesis
    proof (cases "playerShipsRemaining st1 \<le> 0")
      case True
      with Suc.prems s1 Some show ?thesis by simp
    next
      case False
      with Suc.prems s1 Some have "enemyFire st1 m rs (fired @ [shot]) = Some (st', f)" by simp
      from Suc.IH[OF this _ Suc.prems(3)] False s1 Some show ?thesis by simp
    qed
  qed
qed

lemma runGameLoop_outcome:
  "runGameLoop st turn cnt salvos rs = Some (out, st') \<Longrightarrow>
   0 < playerShipsRemaining st \<Longrightarrow> 0 < enemyShipsRemaining st \<Longrightarrow>
   (out = PlayerWins \<and> enemyShipsRemaining st' = 0 \<and> 0 < playerShipsRemaining st') \<or>
   (out = EnemyWins \<and> playerShipsRemaining st' = 0 \<and> 0 < enemyShipsRemaining st') \<or>
   (out = PlayerQuit \<and> 0 < playerShipsRemaining st' \<and> 0 < enemyShipsRemaining st')"
proof (induction st turn cnt salvos rs rule: runGameLoop.induct)
  case (1 st turn cnt salvos rs)
  have live: "playerShipsRemaining st > 0 \<and> enemyShipsRemaining st > 0"
    using "1.prems" by simp
  show ?case
  proof (cases turn)
    case True
    show ?thesis
    proof (cases salvos)
      case Nil
      with "1.prems" True live show ?thesis
        by (subst (asm) runGameLoop.simps) auto
    next
      case (Cons salvo rest)
      from "1.prems"(1) True live Cons obtain st1 where f: "playerFire st salvo = Some st1"
        by (subst (asm) runGameLoop.simps) (auto split: option.splits)
      note c = playerFire_counters[OF f]
      show ?thesis
      proof (cases "enemyShipsRemaining st1 \<le> 0")
        case won: True
        with "1.prems"(1) True live Cons f have "out = PlayerWins" "st' = st1"
          by (subst (asm) runGameLoop.simps, simp)+
        with c won "1.prems" show ?thesis by auto
      next
        case False
        with "1.prems"(1) True live Cons f
        have rec: "runGameLoop st1 False cnt rest rs = Some (out, st')"
          by (subst (asm) runGameLoop.simps) simp
        have "\<not> \<not> (playerShipsRemaining st > 0 \<and> enemyShipsRemaining st > 0)"
          using live by simp
        from "1.IH"(1)[OF this True Cons f False rec] c False "1.prems" show ?thesis by auto
      qed
    qed
  next
    case False
    from "1.prems"(1) False live obtain st1 fired where
      f: "enemyFire st (nat cnt) rs [] = Some (st1, fired)"
      by (subst (asm) runGameLoop.simps) (auto split: option.splits)
    note c = enemyFire_counters[OF f]
    show ?thesis
    proof (cases "playerShipsRemaining st1 \<le> 0")
      case lost: True
      with "1.prems"(1) False live f have "out = EnemyWins" "st' = st1"
        by (subst (asm) runGameLoop.simps, simp)+
      with c lost "1.prems" show ?thesis by auto
    next
      case alive: False
      with "1.prems"(1) False live f
      have rec: "runGameLoop st1 True cnt salvos rs = Some (out, st')"
        by (subst (asm) runGameLoop.simps) simp
      have nn: "\<not> \<not> (playerShipsRemaining st > 0 \<and> enemyShipsRemaining st > 0)"
        using live by simp
      have pr: "(st1, fired) = (st1, fired)" by simp
      from "1.IH"(2)[OF nn False f pr alive rec] c alive "1.prems" show ?thesis by auto
    qed
  qed
qed
subsection \<open>The main loop as a play shot by shot\<close>

lemma game_run_append:
  "game_run rs st (a @ b) =
     (case game_run rs st a of None \<Rightarrow> None | Some s \<Rightarrow> game_run rs s b)"
  by (induction rs st a rule: game_run.induct) (auto split: option.splits)

lemma player_shots_append: "player_shots (a @ b) = player_shots a @ player_shots b"
  by (induction a rule: player_shots.induct) auto

lemma player_shots_map: "player_shots (map ByPlayer cs) = cs"
  by (induction cs) auto

lemma player_shots_replicate: "player_shots (replicate j ByAI) = []"
  by (induction j) auto

lemma playerFire_run:
  "playerFire st sel = Some st' \<Longrightarrow> 0 < playerShipsRemaining st \<Longrightarrow>
   0 < enemyShipsRemaining st \<Longrightarrow>
   \<exists>j\<le>length sel. game_run rs st (map ByPlayer (take j sel)) = Some st' \<and>
      (0 < enemyShipsRemaining st' \<longrightarrow> j = length sel) \<and>
      (enemyShipsRemaining st' \<le> 0 \<longrightarrow> 0 < j)"
proof (induction sel arbitrary: st)
  case Nil
  then show ?case by auto
next
  case (Cons shot sel)
  from Cons.prems(1) obtain st1 where s1: "playerShot st shot = Some st1"
    by (auto split: option.splits)
  note c = playerShot_counters[OF s1]
  show ?case
  proof (cases "enemyShipsRemaining st1 \<le> 0")
    case True
    with Cons.prems(1) s1 have e: "st' = st1" by simp
    have "game_run rs st (map ByPlayer (take 1 (shot # sel))) = Some st'"
      using Cons.prems(2,3) s1 e by simp
    with True e show ?thesis by (intro exI[of _ 1]) auto
  next
    case False
    with Cons.prems(1) s1 have f: "playerFire st1 sel = Some st'" by simp
    from Cons.IH[OF f] c Cons.prems(2) False obtain j where
      j: "j \<le> length sel" "game_run rs st1 (map ByPlayer (take j sel)) = Some st'"
         "0 < enemyShipsRemaining st' \<longrightarrow> j = length sel"
      by auto
    have "game_run rs st (map ByPlayer (take (Suc j) (shot # sel))) = Some st'"
      using Cons.prems(2,3) s1 j(2) by simp
    with j(1,3) show ?thesis by (intro exI[of _ "Suc j"]) auto
  qed
qed

lemma enemyFire_run:
  "enemyFire st m rs fired = Some (st', f) \<Longrightarrow> 0 < playerShipsRemaining st \<Longrightarrow>
   0 < enemyShipsRemaining st \<Longrightarrow>
   \<exists>j\<le>m. game_run rs st (replicate j ByAI) = Some st' \<and>
      (playerShipsRemaining st' \<le> 0 \<longrightarrow> 0 < j)"
proof (induction m arbitrary: st fired)
  case 0
  then show ?case by auto
next
  case (Suc m)
  from Suc.prems(1) obtain res st1 where s1: "enemyShot st rs = Some (res, st1)"
    by (auto split: option.splits)
  note c = enemyShot_counters[OF s1]
  have one: "game_run rs st (replicate 1 ByAI) = Some st1"
    using Suc.prems(2,3) s1 by simp
  show ?case
  proof (cases res)
    case None
    with Suc.prems(1) s1 have "st' = st1" by simp
    with one show ?thesis by (intro exI[of _ 1]) auto
  next
    case (Some shot)
    show ?thesis
    proof (cases "playerShipsRemaining st1 \<le> 0")
      case True
      with Suc.prems(1) s1 Some have "st' = st1" by simp
      with one show ?thesis by (intro exI[of _ 1]) auto
    next
      case False
      with Suc.prems(1) s1 Some
      have f: "enemyFire st1 m rs (fired @ [shot]) = Some (st', f)" by simp
      from Suc.IH[OF f] c Suc.prems(3) False obtain j where
        j: "j \<le> m" "game_run rs st1 (replicate j ByAI) = Some st'"
        by auto
      have "game_run rs st (replicate (Suc j) ByAI) = Some st'"
        using Suc.prems(2,3) s1 j(2) by simp
      with j(1) show ?thesis by (intro exI[of _ "Suc j"]) auto
    qed
  qed
qed

lemma runGameLoop_run:
  "runGameLoop st turn cnt salvos rs = Some (out, st') \<Longrightarrow>
   0 < playerShipsRemaining st \<Longrightarrow> 0 < enemyShipsRemaining st \<Longrightarrow>
   \<exists>ops rest. game_run rs st ops = Some st' \<and> concat salvos = player_shots ops @ rest \<and>
      (out = PlayerWins \<longrightarrow> (\<exists>ops' c. ops = ops' @ [ByPlayer c])) \<and>
      (out = EnemyWins \<longrightarrow> (\<exists>ops'. ops = ops' @ [ByAI])) \<and>
      (out = PlayerQuit \<longrightarrow> rest = [])"
proof (induction st turn cnt salvos rs rule: runGameLoop.induct)
  case (1 st turn cnt salvos rs)
  have live: "playerShipsRemaining st > 0 \<and> enemyShipsRemaining st > 0"
    using "1.prems" by simp
  have nn: "\<not> \<not> (playerShipsRemaining st > 0 \<and> enemyShipsRemaining st > 0)"
    using live by simp
  show ?case
  proof (cases turn)
    case True
    show ?thesis
    proof (cases salvos)
      case Nil
      with "1.prems"(1) True live have "out = PlayerQuit" "st' = st"
        by (subst (asm) runGameLoop.simps, simp)+
      with Nil show ?thesis
        by (intro exI[of _ "[]"]) simp
    next
      case (Cons salvo more)
      from "1.prems"(1) True live Cons obtain st1 where f: "playerFire st salvo = Some st1"
        by (subst (asm) runGameLoop.simps) (auto split: option.splits)
      note c = playerFire_counters[OF f]
      from playerFire_run[OF f, of rs] live obtain j where
        j: "j \<le> length salvo" "game_run rs st (map ByPlayer (take j salvo)) = Some st1"
           "0 < enemyShipsRemaining st1 \<longrightarrow> j = length salvo"
           "enemyShipsRemaining st1 \<le> 0 \<longrightarrow> 0 < j"
        by auto
      show ?thesis
      proof (cases "enemyShipsRemaining st1 \<le> 0")
        case won: True
        with "1.prems"(1) True live Cons f have o: "out = PlayerWins" "st' = st1"
          by (subst (asm) runGameLoop.simps, simp)+
        from won j(4) obtain i where i: "j = Suc i" by (cases j) auto
        with j(1) have il: "i < length salvo" by simp
        have sp: "map ByPlayer (take j salvo) = map ByPlayer (take i salvo) @ [ByPlayer (salvo ! i)]"
          using il i by (simp add: take_Suc_conv_app_nth)
        have cc: "concat salvos = player_shots (map ByPlayer (take j salvo))
                    @ (drop j salvo @ concat more)"
          using Cons by (simp add: player_shots_map)
        from j(2) o sp cc show ?thesis
          by (intro exI[of _ "map ByPlayer (take j salvo)"] exI[of _ "drop j salvo @ concat more"])
             auto
      next
        case False
        with "1.prems"(1) True live Cons f
        have rec: "runGameLoop st1 False cnt more rs = Some (out, st')"
          by (subst (asm) runGameLoop.simps) simp
        from "1.IH"(1)[OF nn True Cons f False rec] c False live obtain ops rest where
          r: "game_run rs st1 ops = Some st'" "concat more = player_shots ops @ rest"
             "out = PlayerWins \<longrightarrow> (\<exists>ops' c. ops = ops' @ [ByPlayer c])"
             "out = EnemyWins \<longrightarrow> (\<exists>ops'. ops = ops' @ [ByAI])"
             "out = PlayerQuit \<longrightarrow> rest = []"
          by auto
        from False j(3) have jl: "j = length salvo" by simp
        let ?ops = "map ByPlayer salvo @ ops"
        have g: "game_run rs st ?ops = Some st'"
          using j(2) jl r(1) by (simp add: game_run_append)
        have cc: "concat salvos = player_shots ?ops @ rest"
          using Cons r(2) by (simp add: player_shots_append player_shots_map)
        have w1: "out = PlayerWins \<longrightarrow> (\<exists>ops' c. ?ops = ops' @ [ByPlayer c])"
        proof
          assume "out = PlayerWins"
          with r(3) obtain ops' c where "ops = ops' @ [ByPlayer c]" by auto
          then have "?ops = (map ByPlayer salvo @ ops') @ [ByPlayer c]" by simp
          then show "\<exists>ops' c. ?ops = ops' @ [ByPlayer c]" by blast
        qed
        have w2: "out = EnemyWins \<longrightarrow> (\<exists>ops'. ?ops = ops' @ [ByAI])"
        proof
          assume "out = EnemyWins"
          with r(4) obtain ops' where "ops = ops' @ [ByAI]" by auto
          then have "?ops = (map ByPlayer salvo @ ops') @ [ByAI]" by simp
          then show "\<exists>ops'. ?ops = ops' @ [ByAI]" by blast
        qed
        from g cc w1 w2 r(5) show ?thesis
          by (intro exI[of _ ?ops] exI[of _ rest]) simp
      qed
    qed
  next
    case False
    from "1.prems"(1) False live obtain st1 fired where
      f: "enemyFire st (nat cnt) rs [] = Some (st1, fired)"
      by (subst (asm) runGameLoop.simps) (auto split: option.splits)
    note c = enemyFire_counters[OF f]
    from enemyFire_run[OF f] live obtain j where
      j: "game_run rs st (replicate j ByAI) = Some st1"
         "playerShipsRemaining st1 \<le> 0 \<longrightarrow> 0 < j"
      by auto
    show ?thesis
    proof (cases "playerShipsRemaining st1 \<le> 0")
      case lost: True
      with "1.prems"(1) False live f have o: "out = EnemyWins" "st' = st1"
        by (subst (asm) runGameLoop.simps, simp)+
      from lost j(2) obtain i where i: "j = Suc i" by (cases j) auto
      have sp: "replicate j ByAI = replicate i ByAI @ [ByAI]"
        using i by (simp add: replicate_append_same)
      have cc: "concat salvos = player_shots (replicate j ByAI) @ concat salvos"
        by (simp add: player_shots_replicate)
      from j(1) o sp cc show ?thesis
        by (intro exI[of _ "replicate j ByAI"] exI[of _ "concat salvos"]) auto
    next
      case alive: False
      with "1.prems"(1) False live f
      have rec: "runGameLoop st1 True cnt salvos rs = Some (out, st')"
        by (subst (asm) runGameLoop.simps) simp
      have pr: "(st1, fired) = (st1, fired)" by simp
      from "1.IH"(2)[OF nn False f pr alive rec] c alive live obtain ops rest where
        r: "game_run rs st1 ops = Some st'" "concat salvos = player_shots ops @ rest"
           "out = PlayerWins \<longrightarrow> (\<exists>ops' c. ops = ops' @ [ByPlayer c])"
           "out = EnemyWins \<longrightarrow> (\<exists>ops'. ops = ops' @ [ByAI])"
           "out = PlayerQuit \<longrightarrow> rest = []"
        by auto
      let ?ops = "replicate j ByAI @ ops"
      have g: "game_run rs st ?ops = Some st'"
        using j(1) r(1) by (simp add: game_run_append)
      have cc: "concat salvos = player_shots ?ops @ rest"
        using r(2) by (simp add: player_shots_append player_shots_replicate)
      have w1: "out = PlayerWins \<longrightarrow> (\<exists>ops' c. ?ops = ops' @ [ByPlayer c])"
      proof
        assume "out = PlayerWins"
        with r(3) obtain ops' c where "ops = ops' @ [ByPlayer c]" by auto
        then have "?ops = (replicate j ByAI @ ops') @ [ByPlayer c]" by simp
        then show "\<exists>ops' c. ?ops = ops' @ [ByPlayer c]" by blast
      qed
      have w2: "out = EnemyWins \<longrightarrow> (\<exists>ops'. ?ops = ops' @ [ByAI])"
      proof
        assume "out = EnemyWins"
        with r(4) obtain ops' where "ops = ops' @ [ByAI]" by auto
        then have "?ops = (replicate j ByAI @ ops') @ [ByAI]" by simp
        then show "\<exists>ops'. ?ops = ops' @ [ByAI]" by blast
      qed
      from g cc w1 w2 r(5) show ?thesis
        by (intro exI[of _ ?ops] exI[of _ rest]) simp
    qed
  qed
qed

lemma game_run_last_player:
  "game_run rs st (ops @ [ByPlayer c]) = Some st' \<Longrightarrow>
   \<exists>s. game_run rs st ops = Some s \<and> 0 < playerShipsRemaining s \<and> 0 < enemyShipsRemaining s \<and>
       playerShot s c = Some st'"
  by (auto simp: game_run_append split: option.splits if_splits)

lemma game_run_last_ai:
  "game_run rs st (ops @ [ByAI]) = Some st' \<Longrightarrow>
   \<exists>s c. game_run rs st ops = Some s \<and> 0 < playerShipsRemaining s \<and> 0 < enemyShipsRemaining s \<and>
       enemyShot s rs = Some (c, st')"
  by (auto simp: game_run_append split: option.splits if_splits)

lemma enemyShot_no_shot:
  "enemyShot st rs = Some (None, st') \<Longrightarrow> playerShipsRemaining st' = playerShipsRemaining st"
  by (auto simp: enemyShot_def Let_def split: option.splits prod.splits if_splits)

text \<open>
  Claim C4.  In a firing phase entered with the defender's counter above zero: once
  the counter is zero no further queued shot is resolved, so the state after the
  phase is the state right after the shot that brought the counter to zero, whatever
  shots were still queued (player's phase) or rounds still left (AI's phase), and the
  counter is exactly zero.

  The main loop, entered with both counters above zero, returns a state that is
  reached by resolving individual shots one after the other, every one of them fired
  while both counters were above zero, and the player's shots among them are the
  queued shots in their order, up to the last one resolved.  It ends with
  \<open>PlayerWins\<close> exactly when the AI's counter is zero, and the state returned is
  then the very state a shot of the player produced; with \<open>EnemyWins\<close> exactly when
  the player's counter is zero, and the state returned is then the very state a shot
  of the AI produced; and otherwise only by the player quitting, with both counters
  above zero and every queued shot resolved.
\<close>

theorem game_over_when_fleet_sunk:
  "(playerFire st pre = Some st' \<and> 0 < enemyShipsRemaining st \<and> enemyShipsRemaining st' \<le> 0
      \<longrightarrow> playerFire st (pre @ post) = Some st' \<and> enemyShipsRemaining st' = 0) \<and>
   (enemyFire st m rs fired = Some (st'', f) \<and> 0 < playerShipsRemaining st
      \<and> playerShipsRemaining st'' \<le> 0
      \<longrightarrow> enemyFire st (m + k) rs fired = Some (st'', f) \<and> playerShipsRemaining st'' = 0) \<and>
   (runGameLoop st0 turn cnt salvos rs = Some (out, st1) \<and> 0 < playerShipsRemaining st0
      \<and> 0 < enemyShipsRemaining st0
      \<longrightarrow> (\<exists>ops rest. game_run rs st0 ops = Some st1 \<and>
             concat salvos = player_shots ops @ rest \<and>
             (out = PlayerWins \<longrightarrow>
                (\<exists>ops' c s. ops = ops' @ [ByPlayer c] \<and> game_run rs st0 ops' = Some s \<and>
                   0 < playerShipsRemaining s \<and> 0 < enemyShipsRemaining s \<and>
                   playerShot s c = Some st1)) \<and>
             (out = EnemyWins \<longrightarrow>
                (\<exists>ops' c s. ops = ops' @ [ByAI] \<and> game_run rs st0 ops' = Some s \<and>
                   0 < playerShipsRemaining s \<and> 0 < enemyShipsRemaining s \<and>
                   enemyShot s rs = Some (Some c, st1))) \<and>
             (out = PlayerQuit \<longrightarrow> rest = [])) \<and>
          (out = PlayerWins) = (enemyShipsRemaining st1 = 0) \<and>
          (out = EnemyWins) = (playerShipsRemaining st1 = 0) \<and>
          (out = PlayerQuit) = (0 < playerShipsRemaining st1 \<and> 0 < enemyShipsRemaining st1) \<and>
          out \<noteq> LoopExit)"
proof (intro conjI impI)
  assume a: "playerFire st pre = Some st' \<and> 0 < enemyShipsRemaining st
             \<and> enemyShipsRemaining st' \<le> 0"
  then show "playerFire st (pre @ post) = Some st'"
    using playerFire_stops by blast
  from a playerFire_counters[of st pre st'] show "enemyShipsRemaining st' = 0" by auto
next
  assume a: "enemyFire st m rs fired = Some (st'', f) \<and> 0 < playerShipsRemaining st
             \<and> playerShipsRemaining st'' \<le> 0"
  then show "enemyFire st (m + k) rs fired = Some (st'', f)"
    using enemyFire_stops by blast
  from a enemyFire_counters[of st m rs fired st'' f] show "playerShipsRemaining st'' = 0"
    by auto
next
  assume a: "runGameLoop st0 turn cnt salvos rs = Some (out, st1) \<and> 0 < playerShipsRemaining st0
             \<and> 0 < enemyShipsRemaining st0"
  then have o: "(out = PlayerWins \<and> enemyShipsRemaining st1 = 0 \<and> 0 < playerShipsRemaining st1) \<or>
   (out = EnemyWins \<and> playerShipsRemaining st1 = 0 \<and> 0 < enemyShipsRemaining st1) \<or>
   (out = PlayerQuit \<and> 0 < playerShipsRemaining st1 \<and> 0 < enemyShipsRemaining st1)"
    using runGameLoop_outcome[of st0 turn cnt salvos rs out st1] by blast
  from o show "(out = PlayerWins) = (enemyShipsRemaining st1 = 0)" by auto
  from o show "(out = EnemyWins) = (playerShipsRemaining st1 = 0)" by auto
  from o show "(out = PlayerQuit) = (0 < playerShipsRemaining st1 \<and> 0 < enemyShipsRemaining st1)"
    by auto
  from o show "out \<noteq> LoopExit" by auto
  from a runGameLoop_run[of st0 turn cnt salvos rs out st1] obtain ops rest where
    r: "game_run rs st0 ops = Some st1" "concat salvos = player_shots ops @ rest"
       "out = PlayerWins \<longrightarrow> (\<exists>ops' c. ops = ops' @ [ByPlayer c])"
       "out = EnemyWins \<longrightarrow> (\<exists>ops'. ops = ops' @ [ByAI])"
       "out = PlayerQuit \<longrightarrow> rest = []"
    by blast
  have w1: "out = PlayerWins \<longrightarrow>
                (\<exists>ops' c s. ops = ops' @ [ByPlayer c] \<and> game_run rs st0 ops' = Some s \<and>
                   0 < playerShipsRemaining s \<and> 0 < enemyShipsRemaining s \<and>
                   playerShot s c = Some st1)"
  proof
    assume "out = PlayerWins"
    with r(3) obtain ops' c where e: "ops = ops' @ [ByPlayer c]" by auto
    from game_run_last_player[OF r(1)[unfolded e]] e
    show "\<exists>ops' c s. ops = ops' @ [ByPlayer c] \<and> game_run rs st0 ops' = Some s \<and>
                   0 < playerShipsRemaining s \<and> 0 < enemyShipsRemaining s \<and>
                   playerShot s c = Some st1"
      by blast
  qed
  have w2: "out = EnemyWins \<longrightarrow>
                (\<exists>ops' c s. ops = ops' @ [ByAI] \<and> game_run rs st0 ops' = Some s \<and>
                   0 < playerShipsRemaining s \<and> 0 < enemyShipsRemaining s \<and>
                   enemyShot s rs = Some (Some c, st1))"
  proof
    assume w: "out = EnemyWins"
    with r(4) obtain ops' where e: "ops = ops' @ [ByAI]" by auto
    from game_run_last_ai[OF r(1)[unfolded e]] obtain s c where
      s: "game_run rs st0 ops' = Some s" "0 < playerShipsRemaining s" "0 < enemyShipsRemaining s"
         "enemyShot s rs = Some (c, st1)"
      by blast
    from w o have z: "playerShipsRemaining st1 = 0" by auto
    have "c \<noteq> None"
    proof
      assume "c = None"
      with s(4) enemyShot_no_shot[of s rs st1] s(2) z show False by simp
    qed
    then obtain shot where "c = Some shot" by auto
    with s e
    show "\<exists>ops' c s. ops = ops' @ [ByAI] \<and> game_run rs st0 ops' = Some s \<and>
                   0 < playerShipsRemaining s \<and> 0 < enemyShipsRemaining s \<and>
                   enemyShot s rs = Some (Some c, st1)"
      by blast
  qed
  from r(1,2,5) w1 w2
  show "\<exists>ops rest. game_run rs st0 ops = Some st1 \<and>
             concat salvos = player_shots ops @ rest \<and>
             (out = PlayerWins \<longrightarrow>
                (\<exists>ops' c s. ops = ops' @ [ByPlayer c] \<and> game_run rs st0 ops' = Some s \<and>
                   0 < playerShipsRemaining s \<and> 0 < enemyShipsRemaining s \<and>
                   playerShot s c = Some st1)) \<and>
             (out = EnemyWins \<longrightarrow>
                (\<exists>ops' c s. ops = ops' @ [ByAI] \<and> game_run rs st0 ops' = Some s \<and>
                   0 < playerShipsRemaining s \<and> 0 < enemyShipsRemaining s \<and>
                   enemyShot s rs = Some (Some c, st1))) \<and>
             (out = PlayerQuit \<longrightarrow> rest = [])"
    by blast
qed

text \<open>
  Two games on \<open>real_game\<close>.  In the first the player selects the twenty cells of
  the AI's fleet and two more cells in the first turn; the game is won at the
  twentieth shot and the two cells queued behind it are not fired at.  In the second
  the player fires at (1,0) and the AI, on \<open>sharp_tape\<close>, sinks the player's fleet
  with the twentieth of its 26 shots; the six rounds that are left are not played.
\<close>

lemma demo_player_wins:
  "map_option (\<lambda>st. (playerShipsRemaining st, enemyShipsRemaining st,
                      map_option enemyShipsRemaining (playerFire st fleet_cells),
                      map_option (\<lambda>(out, s). (out, playerHits s, enemyHits s))
                        (runGameLoop st True 26 [fleet_cells @ [(9, 9), (9, 8)]] (\<lambda>k. 0))))
     real_game = Some (10, 10, Some 0, Some (PlayerWins, 20, 0))"
  by code_simp

lemma demo_enemy_salvo:
  "map_option (\<lambda>st0. map_option
       (\<lambda>st. (playerShipsRemaining st,
              map_option (\<lambda>(s, f). (playerShipsRemaining s, length f))
                         (enemyFire st 20 sharp_tape [])))
       (playerFire st0 [(1, 0)])) real_game
   = Some (Some (10, Some (0, 20)))"
  by code_simp

lemma demo_enemy_wins:
  "map_option (\<lambda>st0. (playerShipsRemaining st0, enemyShipsRemaining st0,
       map_option (\<lambda>(out, s). (out, playerHits s, enemyHits s, length (availableShots (ai s))))
         (runGameLoop st0 True 26 [[(1, 0)], [(3, 0)]] sharp_tape))) real_game
   = Some (10, 10, Some (EnemyWins, 0, 20, 80))"
  by code_simp

theorem game_over_when_fleet_sunk_witness:
  "(\<exists>st st'. real_game = Some st \<and>
      playerFire st (fleet_cells @ [(9, 9), (9, 8)]) = Some st' \<and>
      playerFire st fleet_cells = Some st' \<and> enemyShipsRemaining st' = 0) \<and>
   (\<exists>st0 st st' f. real_game = Some st0 \<and> playerFire st0 [(1, 0)] = Some st \<and>
      enemyFire st (20 + 6) sharp_tape [] = Some (st', f) \<and> length f = 20 \<and>
      playerShipsRemaining st' = 0) \<and>
   (\<exists>st0 st1 ops c s. real_game = Some st0 \<and>
      runGameLoop st0 True 26 [fleet_cells @ [(9, 9), (9, 8)]] (\<lambda>k. 0) = Some (PlayerWins, st1) \<and>
      enemyShipsRemaining st1 = 0 \<and> playerHits st1 = 20 \<and>
      game_run (\<lambda>k. 0) st0 ops = Some s \<and> playerShot s c = Some st1) \<and>
   (\<exists>st0 st1 ops c s. real_game = Some st0 \<and>
      runGameLoop st0 True 26 [[(1, 0)], [(3, 0)]] sharp_tape = Some (EnemyWins, st1) \<and>
      playerShipsRemaining st1 = 0 \<and> enemyHits st1 = 20 \<and>
      game_run sharp_tape st0 ops = Some s \<and> enemyShot s sharp_tape = Some (Some c, st1))"
proof (intro conjI)
  from demo_player_wins obtain st st' where
    st: "real_game = Some st"
    and c: "playerShipsRemaining st = 10" "enemyShipsRemaining st = 10"
    and f: "playerFire st fleet_cells = Some st'" and e: "enemyShipsRemaining st' = 0"
    by auto
  have pre: "playerFire st fleet_cells = Some st' \<and> 0 < enemyShipsRemaining st
             \<and> enemyShipsRemaining st' \<le> 0"
    using f c e by simp
  note th = game_over_when_fleet_sunk[of st fleet_cells st' "[(9, 9), (9, 8)]"]
  from th[THEN conjunct1, rule_format, OF pre] st f
  show "\<exists>st st'. real_game = Some st \<and>
      playerFire st (fleet_cells @ [(9, 9), (9, 8)]) = Some st' \<and>
      playerFire st fleet_cells = Some st' \<and> enemyShipsRemaining st' = 0"
    by blast
next
  from demo_enemy_salvo obtain st0 st st' f where
    st0: "real_game = Some st0" and st: "playerFire st0 [(1, 0)] = Some st"
    and c: "playerShipsRemaining st = 10"
    and fire: "enemyFire st 20 sharp_tape [] = Some (st', f)"
    and e: "playerShipsRemaining st' = 0" and f: "length f = 20"
    by auto
  have pre: "enemyFire st 20 sharp_tape [] = Some (st', f) \<and> 0 < playerShipsRemaining st
             \<and> playerShipsRemaining st' \<le> 0"
    using fire c e by simp
  note th = game_over_when_fleet_sunk[where st = st and m = 20 and rs = sharp_tape
              and fired = "[]" and st'' = st' and f = f and k = 6]
  from th[THEN conjunct2, THEN conjunct1, rule_format, OF pre] st0 st f
  show "\<exists>st0 st st' f. real_game = Some st0 \<and> playerFire st0 [(1, 0)] = Some st \<and>
      enemyFire st (20 + 6) sharp_tape [] = Some (st', f) \<and> length f = 20 \<and>
      playerShipsRemaining st' = 0"
    by blast
next
  from demo_player_wins obtain st0 st1 where
    st: "real_game = Some st0"
    and c: "playerShipsRemaining st0 = 10" "enemyShipsRemaining st0 = 10"
    and run: "runGameLoop st0 True 26 [fleet_cells @ [(9, 9), (9, 8)]] (\<lambda>k. 0)
                = Some (PlayerWins, st1)"
    and h: "playerHits st1 = 20"
    by auto
  have pre: "runGameLoop st0 True 26 [fleet_cells @ [(9, 9), (9, 8)]] (\<lambda>k. 0)
               = Some (PlayerWins, st1)
             \<and> 0 < playerShipsRemaining st0 \<and> 0 < enemyShipsRemaining st0"
    using run c by simp
  note th = game_over_when_fleet_sunk[where ?st0.0 = st0 and turn = True and cnt = 26
              and salvos = "[fleet_cells @ [(9, 9), (9, 8)]]" and rs = "\<lambda>k. 0"
              and out = PlayerWins and ?st1.0 = st1]
  from th[THEN conjunct2, THEN conjunct2, rule_format, OF pre]
  obtain ops c s where "game_run (\<lambda>k. 0) st0 ops = Some s" "playerShot s c = Some st1"
    and "enemyShipsRemaining st1 = 0"
    by auto
  with st run h
  show "\<exists>st0 st1 ops c s. real_game = Some st0 \<and>
      runGameLoop st0 True 26 [fleet_cells @ [(9, 9), (9, 8)]] (\<lambda>k. 0) = Some (PlayerWins, st1) \<and>
      enemyShipsRemaining st1 = 0 \<and> playerHits st1 = 20 \<and>
      game_run (\<lambda>k. 0) st0 ops = Some s \<and> playerShot s c = Some st1"
    by blast
next
  from demo_enemy_wins obtain st0 st1 where
    st: "real_game = Some st0"
    and c: "playerShipsRemaining st0 = 10" "enemyShipsRemaining st0 = 10"
    and run: "runGameLoop st0 True 26 [[(1, 0)], [(3, 0)]] sharp_tape = Some (EnemyWins, st1)"
    and h: "enemyHits st1 = 20"
    by auto
  have pre: "runGameLoop st0 True 26 [[(1, 0)], [(3, 0)]] sharp_tape = Some (EnemyWins, st1)
             \<and> 0 < playerShipsRemaining st0 \<and> 0 < enemyShipsRemaining st0"
    using run c by simp
  note th = game_over_when_fleet_sunk[where ?st0.0 = st0 and turn = True and cnt = 26
              and salvos = "[[(1, 0)], [(3, 0)]]" and rs = sharp_tape
              and out = EnemyWins and ?st1.0 = st1]
  from th[THEN conjunct2, THEN conjunct2, rule_format, OF pre]
  obtain ops c s where "game_run sharp_tape st0 ops = Some s"
    "enemyShot s sharp_tape = Some (Some c, st1)"
    and "playerShipsRemaining st1 = 0"
    by auto
  with st run h
  show "\<exists>st0 st1 ops c s. real_game = Some st0 \<and>
      runGameLoop st0 True 26 [[(1, 0)], [(3, 0)]] sharp_tape = Some (EnemyWins, st1) \<and>
      playerShipsRemaining st1 = 0 \<and> enemyHits st1 = 20 \<and>
      game_run sharp_tape st0 ops = Some s \<and> enemyShot s sharp_tape = Some (Some c, st1)"
    by blast
qed

subsection \<open>What the coordinates of an AI salvo depend on\<close>









end
